theory Spec2Isabelle
  imports Main "HOL-Library.AList" "HOL-Library.Multiset"
begin

section \<open>Python values, errors and names\<close>

text \<open>
  Every exception the module can raise is a value. The payload is the message; for a
  name or attribute error it is the name that could not be resolved, for a key error
  the key that was not found.
\<close>

datatype key = IntKey int | StrKey string

datatype error =
    ValueError string
  | KeyError key
  | AttributeError string
  | NameError string
  | TypeError string

text \<open>
  The names bound at module level in \<^verbatim>\<open>chipcollections.py\<close>: its imports and its
  classes. A free name of a method body is looked up here after the method's own locals
  (no Python builtin is called \<^verbatim>\<open>description\<close>). The object found is represented by
  its name.
\<close>

definition module_globals :: "string list" where
  "module_globals =
     [''os'', ''logging'', ''glob'', ''Path'', ''namedtuple'', ''OrderedDict'', ''pd'',
      ''tqdm'', ''external'', ''ChipImage'', ''ChipSeries'', ''StandardSeries'',
      ''Timecourse'', ''Titration'', ''ChipQuant'', ''Assay'', ''TurnoverAssay'',
      ''AssaySeries'']"

definition load_global :: "string \<Rightarrow> error + string" where
  "load_global n = (if n \<in> set module_globals then Inr n else Inl (NameError n))"

text \<open>Truthiness of an optional string or list argument: \<^verbatim>\<open>None\<close> and the empty value are falsy.\<close>

fun truthy :: "'a list option \<Rightarrow> bool" where
  "truthy None = False"
| "truthy (Some xs) = (xs \<noteq> [])"

section \<open>Strings, paths and file discovery\<close>

text \<open>\<^verbatim>\<open>sub in s\<close> on strings.\<close>

fun startswith :: "string \<Rightarrow> string \<Rightarrow> bool" where
  "startswith [] s = True"
| "startswith (p # ps) [] = False"
| "startswith (p # ps) (c # cs) = (p = c \<and> startswith ps cs)"

fun contains :: "string \<Rightarrow> string \<Rightarrow> bool" where
  "contains sub [] = (sub = [])"
| "contains sub (c # cs) = (startswith sub (c # cs) \<or> contains sub cs)"

text \<open>\<^verbatim>\<open>s.split('_')[-1]\<close>: the text after the last underscore, all of \<^verbatim>\<open>s\<close> when it has none.\<close>

definition last_field :: "string \<Rightarrow> string" where
  "last_field s = rev (takeWhile (\<lambda>c. c \<noteq> CHR ''_'') (rev s))"

text \<open>
  \<^verbatim>\<open>int(s)\<close> in base ten on ASCII text: surrounding whitespace is stripped, one sign is
  allowed, and at least one digit must follow. Anything else is a \<^verbatim>\<open>ValueError\<close>.
\<close>

definition digit_of :: "char \<Rightarrow> nat option" where
  "digit_of c = map_of
     [(CHR ''0'', 0), (CHR ''1'', 1), (CHR ''2'', 2), (CHR ''3'', 3), (CHR ''4'', 4),
      (CHR ''5'', 5), (CHR ''6'', 6), (CHR ''7'', 7), (CHR ''8'', 8), (CHR ''9'', 9)] c"

fun digits_value :: "nat \<Rightarrow> string \<Rightarrow> nat option" where
  "digits_value acc [] = Some acc"
| "digits_value acc (c # cs) =
     (case digit_of c of None \<Rightarrow> None | Some d \<Rightarrow> digits_value (10 * acc + d) cs)"

definition is_space :: "char \<Rightarrow> bool" where
  "is_space c = (c \<in> set [CHR '' '', CHR 0x09, CHR 0x0A, CHR 0x0B, CHR 0x0C, CHR 0x0D])"

definition strip :: "string \<Rightarrow> string" where
  "strip s = rev (dropWhile is_space (rev (dropWhile is_space s)))"

definition unsigned_int :: "string \<Rightarrow> string \<Rightarrow> error + nat" where
  "unsigned_int whole ds =
     (if ds = [] then Inl (ValueError (''invalid literal for int() with base 10: '' @ whole))
      else case digits_value 0 ds of
             None \<Rightarrow> Inl (ValueError (''invalid literal for int() with base 10: '' @ whole))
           | Some n \<Rightarrow> Inr n)"

definition py_int :: "string \<Rightarrow> error + int" where
  "py_int s =
     (case strip s of
        [] \<Rightarrow> Inl (ValueError (''invalid literal for int() with base 10: '' @ s))
      | c # cs \<Rightarrow>
          if c = CHR ''-'' then
            (case unsigned_int s cs of Inl e \<Rightarrow> Inl e | Inr n \<Rightarrow> Inr (- int n))
          else if c = CHR ''+'' then
            (case unsigned_int s cs of Inl e \<Rightarrow> Inl e | Inr n \<Rightarrow> Inr (int n))
          else
            (case unsigned_int s (c # cs) of Inl e \<Rightarrow> Inl e | Inr n \<Rightarrow> Inr (int n)))"

text \<open>
  Paths are POSIX strings without a trailing slash. \<^verbatim>\<open>path_name\<close>, \<^verbatim>\<open>path_parent\<close> and
  \<^verbatim>\<open>path_stem\<close> are \<^verbatim>\<open>Path.name\<close>, \<^verbatim>\<open>Path.parent\<close> and \<^verbatim>\<open>Path.stem\<close>;
  \<^verbatim>\<open>os_path_join\<close> is \<^verbatim>\<open>os.path.join\<close> on two parts.
\<close>

definition path_name :: "string \<Rightarrow> string" where
  "path_name p = rev (takeWhile (\<lambda>c. c \<noteq> CHR ''/'') (rev p))"

definition path_parent :: "string \<Rightarrow> string" where
  "path_parent p =
     (if CHR ''/'' \<notin> set p then ''.''
      else let d = rev (drop 1 (dropWhile (\<lambda>c. c \<noteq> CHR ''/'') (rev p)))
           in if d = [] then ''/'' else d)"

definition path_stem :: "string \<Rightarrow> string" where
  "path_stem p =
     (let n = path_name p;
          ext = rev (takeWhile (\<lambda>c. c \<noteq> CHR ''.'') (rev n));
          i = length n - length ext - 1
      in if CHR ''.'' \<in> set n \<and> 0 < i \<and> ext \<noteq> [] then take i n else n)"

definition os_path_join :: "string \<Rightarrow> string \<Rightarrow> string" where
  "os_path_join a b =
     (if startswith ''/'' b then b
      else if a = [] \<or> last a = CHR ''/'' then a @ b
      else a @ ''/'' @ b)"

text \<open>
  Shell-style matching of one file name against a pattern, as \<^verbatim>\<open>Path.glob\<close> does for a
  pattern of one component: \<^verbatim>\<open>*\<close> matches any run of characters, \<^verbatim>\<open>?\<close> any one
  character, every other character itself (case-sensitively). Bracket expressions are
  not part of the model.
\<close>

fun fnmatch :: "string \<Rightarrow> string \<Rightarrow> bool" where
  "fnmatch [] [] = True"
| "fnmatch [] (c # cs) = False"
| "fnmatch (p # ps) [] = (p = CHR ''*'' \<and> fnmatch ps [])"
| "fnmatch (p # ps) (c # cs) =
     (if p = CHR ''*'' then fnmatch ps (c # cs) \<or> fnmatch (p # ps) cs
      else if p = CHR ''?'' then fnmatch ps cs
      else p = c \<and> fnmatch ps cs)"

text \<open>
  The file system, as far as the module looks at it: the directories and the files that
  exist, by full path, in the order the operating system enumerates them.
\<close>

record filesystem =
  dirs :: "string list"
  files :: "string list"

definition os_path_isdir :: "filesystem \<Rightarrow> string \<Rightarrow> bool" where
  "os_path_isdir fs p = (p \<in> set (dirs fs))"

definition iterdir :: "filesystem \<Rightarrow> string \<Rightarrow> string list" where
  "iterdir fs root = filter (\<lambda>p. path_parent p = root) (files fs @ dirs fs)"

text \<open>\<^verbatim>\<open>Path(root).glob(pattern)\<close>: nothing when the root is not a directory.\<close>

definition path_glob :: "filesystem \<Rightarrow> string \<Rightarrow> string \<Rightarrow> string list" where
  "path_glob fs root pattern =
     (if os_path_isdir fs root
      then filter (\<lambda>p. fnmatch pattern (path_name p)) (iterdir fs root)
      else [])"

section \<open>The collaborators: device, chip image, data table\<close>

record device =
  setup_name :: string
  dname :: string
  corners :: "(int \<times> int) list"
  pinlist :: "string list"

text \<open>
  \<^verbatim>\<open>ChipImage\<close> lives outside the repository. The model keeps what the constructor is
  given and, in \<^verbatim>\<open>calls\<close>, the methods invoked on the object, in order; \<^verbatim>\<open>MapTo r f\<close>
  on a chip records that the reference with data path \<^verbatim>\<open>r\<close> mapped its positions onto
  it with the \<^verbatim>\<open>features\<close> keyword \<^verbatim>\<open>f\<close>.
\<close>

datatype chip_call = Stamp | FindButtons | FindChambers | MapTo string "string option"

record chip_image =
  chip_device :: device
  data_ref :: string
  ids :: "(string \<times> int) list"
  chip_corners :: "(int \<times> int) list"
  chip_pinlist :: "string list"
  channel :: string
  exposure :: int
  calls :: "chip_call list"

definition ChipImage ::
  "device \<Rightarrow> string \<Rightarrow> (string \<times> int) list \<Rightarrow> (int \<times> int) list \<Rightarrow> string list \<Rightarrow> string \<Rightarrow> int
     \<Rightarrow> chip_image" where
  "ChipImage dev source idents crn pins chan expo =
     \<lparr>chip_device = dev, data_ref = source, ids = idents, chip_corners = crn,
      chip_pinlist = pins, channel = chan, exposure = expo, calls = []\<rparr>"

definition stamp :: "chip_image \<Rightarrow> chip_image" where
  "stamp c = c\<lparr>calls := calls c @ [Stamp]\<rparr>"

definition findButtons :: "chip_image \<Rightarrow> chip_image" where
  "findButtons c = c\<lparr>calls := calls c @ [FindButtons]\<rparr>"

definition findChambers :: "chip_image \<Rightarrow> chip_image" where
  "findChambers c = c\<lparr>calls := calls c @ [FindChambers]\<rparr>"

definition mapto :: "chip_image \<Rightarrow> chip_image \<Rightarrow> string option \<Rightarrow> chip_image" where
  "mapto reference c features = c\<lparr>calls := calls c @ [MapTo (data_ref reference) features]\<rparr>"

section \<open>ChipSeries and its subclasses\<close>

record owned =
  device :: device
  attrs :: "(string \<times> string) list option"

record described = owned +
  description :: string

record chip_series = described +
  series_indexer :: string
  chips :: "(int \<times> chip_image) list option"
  series_root :: "string option"

text \<open>
  \<^verbatim>\<open>ChipSeries.__init__(self, device, series_index, attrs)\<close>. The body assigns
  \<^verbatim>\<open>device\<close>, \<^verbatim>\<open>attrs\<close> and \<^verbatim>\<open>series_indexer\<close> and then reads the name
  \<^verbatim>\<open>description\<close>, which is neither a parameter nor a local.
\<close>

definition ChipSeries_init ::
  "device \<Rightarrow> string \<Rightarrow> (string \<times> string) list option \<Rightarrow> error + chip_series" where
  "ChipSeries_init dev series_index ats =
     (case load_global ''description'' of
        Inl e \<Rightarrow> Inl e
      | Inr desc \<Rightarrow>
          Inr \<lparr>device = dev, attrs = ats, description = desc,
               series_indexer = series_index, chips = Some [], series_root = None\<rparr>)"

definition StandardSeries_init ::
  "device \<Rightarrow> string \<Rightarrow> (string \<times> string) list option \<Rightarrow> error + chip_series" where
  "StandardSeries_init dev desc ats =
     Inr \<lparr>device = dev, attrs = ats, description = desc,
          series_indexer = ''concentration_uM'', chips = None, series_root = None\<rparr>"

definition Timecourse_init ::
  "device \<Rightarrow> string \<Rightarrow> (string \<times> string) list option \<Rightarrow> error + chip_series" where
  "Timecourse_init dev desc ats =
     Inr \<lparr>device = dev, attrs = ats, description = desc,
          series_indexer = ''time_s'', chips = None, series_root = None\<rparr>"

text \<open>\<^verbatim>\<open>Titration\<close> has an empty body: constructing it runs \<^verbatim>\<open>ChipSeries.__init__\<close>.\<close>

definition Titration_init ::
  "device \<Rightarrow> string \<Rightarrow> (string \<times> string) list option \<Rightarrow> error + chip_series" where
  "Titration_init = ChipSeries_init"

text \<open>
  \<^verbatim>\<open>ChipSeries.load_files\<close>. The image filter keeps a file unless its stem contains
  \<^verbatim>\<open>ChamberBorders\<close> and not \<^verbatim>\<open>Summary\<close>. The dictionary comprehension over the paths
  is \<^verbatim>\<open>build_record\<close>: a later path with the same index replaces the earlier one, and
  the first index that does not parse raises.
\<close>

definition keep_image :: "string \<Rightarrow> bool" where
  "keep_image i = (\<not> contains ''ChamberBorders'' (path_stem i) \<or> contains ''Summary'' (path_stem i))"

fun build_record :: "(int \<times> string) list \<Rightarrow> string list \<Rightarrow> error + (int \<times> string) list" where
  "build_record acc [] = Inr acc"
| "build_record acc (path # paths) =
     (case py_int (last_field (path_stem path)) of
        Inl e \<Rightarrow> Inl e
      | Inr k \<Rightarrow> build_record (AList.update k path acc) paths)"

definition load_files ::
  "filesystem \<Rightarrow> chip_series \<Rightarrow> string \<Rightarrow> string \<Rightarrow> int \<Rightarrow> int list option \<Rightarrow> string option
     \<Rightarrow> error + chip_series" where
  "load_files fs s root chan expo indexes custom_glob =
     (let s1 = s\<lparr>series_root := Some root\<rparr>;
          glob_pattern = (if truthy custom_glob then the custom_glob else ''*StitchedImg*.tif'')
      in if truthy indexes then Inr s1
         else
           let img_files = filter keep_image (path_glob fs root glob_pattern);
               img_paths = map (\<lambda>img. os_path_join (path_parent root) img) img_files
           in (case build_record [] img_paths of
                 Inl e \<Rightarrow> Inl e
               | Inr rcd \<Rightarrow>
                   Inr (s1\<lparr>chips := Some (map (\<lambda>(identifier, source).
                          (identifier,
                           ChipImage (device s1) source [(series_indexer s1, identifier)]
                             (corners (device s1)) (pinlist (device s1)) chan expo)) rcd)\<rparr>)))"

text \<open>The keys of a series' chips, as a set; a series whose chips are still \<^verbatim>\<open>None\<close> has none.\<close>

definition chip_keys :: "chip_series \<Rightarrow> int set" where
  "chip_keys s = (case chips s of None \<Rightarrow> {} | Some d \<Rightarrow> set (map fst d))"


section \<open>Data tables\<close>

text \<open>
  The data frames of the table library, as far as the module uses them: named columns
  and rows labelled by an integer index. A row holds its cells by column name; a column
  a row has no cell for is null there. \<^verbatim>\<open>set_column\<close> is \<^verbatim>\<open>df[c] = v\<close> with a scalar,
  \<^verbatim>\<open>pd_concat\<close> is \<^verbatim>\<open>pd.concat\<close> (which refuses an empty list), \<^verbatim>\<open>sort_index\<close>,
  \<^verbatim>\<open>drop_columns\<close> (which refuses a label that is not a column) and \<^verbatim>\<open>add_suffix\<close>
  are the methods of those names, and \<^verbatim>\<open>join_left\<close> is \<^verbatim>\<open>join(others, how='left')\<close>
  on the row index. The model takes the join of a list of tables to succeed and the
  suffix arguments passed with it to have no effect.
\<close>

datatype cell = Null | IntCell int | StrCell string

record table =
  columns :: "string list"
  rows :: "(int \<times> (string \<times> cell) list) list"

definition set_column :: "string \<Rightarrow> cell \<Rightarrow> table \<Rightarrow> table" where
  "set_column c v t =
     \<lparr>columns = (if c \<in> set (columns t) then columns t else columns t @ [c]),
      rows = map (\<lambda>(i, r). (i, AList.update c v r)) (rows t)\<rparr>"

fun ordered_union :: "string list \<Rightarrow> string list \<Rightarrow> string list" where
  "ordered_union acc [] = acc"
| "ordered_union acc (c # cs) = ordered_union (if c \<in> set acc then acc else acc @ [c]) cs"

definition pd_concat :: "table list \<Rightarrow> error + table" where
  "pd_concat ts =
     (if ts = [] then Inl (ValueError ''No objects to concatenate'')
      else Inr \<lparr>columns = ordered_union [] (concat (map columns ts)),
                rows = concat (map rows ts)\<rparr>)"

definition sort_index :: "table \<Rightarrow> table" where
  "sort_index t = t\<lparr>rows := sort_key fst (rows t)\<rparr>"

definition drop_columns :: "string list \<Rightarrow> table \<Rightarrow> error + table" where
  "drop_columns cs t =
     (case filter (\<lambda>c. c \<notin> set (columns t)) cs of
        missing # _ \<Rightarrow> Inl (KeyError (StrKey missing))
      | [] \<Rightarrow>
          Inr \<lparr>columns = filter (\<lambda>c. c \<notin> set cs) (columns t),
               rows = map (\<lambda>(i, r). (i, filter (\<lambda>(c, v). c \<notin> set cs) r)) (rows t)\<rparr>)"

definition add_suffix :: "string \<Rightarrow> table \<Rightarrow> table" where
  "add_suffix sfx t =
     \<lparr>columns = map (\<lambda>c. c @ sfx) (columns t),
      rows = map (\<lambda>(i, r). (i, map (\<lambda>(c, v). (c @ sfx, v)) r)) (rows t)\<rparr>"

definition left_merge :: "table \<Rightarrow> table \<Rightarrow> table" where
  "left_merge l r =
     \<lparr>columns = columns l @ columns r,
      rows = concat (map (\<lambda>(i, cs).
               case filter (\<lambda>(j, rc). j = i) (rows r) of
                 [] \<Rightarrow> [(i, cs)]
               | m # ms \<Rightarrow> map (\<lambda>(j, rc). (i, cs @ rc)) (m # ms)) (rows l))\<rparr>"

definition join_left :: "table \<Rightarrow> table list \<Rightarrow> table" where
  "join_left l others = foldl left_merge l others"

text \<open>\<^verbatim>\<open>desc.replace(' ', '_')\<close>.\<close>

definition replace_spaces :: "string \<Rightarrow> string" where
  "replace_spaces s = map (\<lambda>c. if c = CHR '' '' then CHR ''_'' else c) s"

section \<open>Summaries and processing of a series\<close>

text \<open>
  \<^verbatim>\<open>ChipSeries.summarize\<close>. What \<^verbatim>\<open>ChipImage.summarize\<close> returns for a chip is the
  parameter \<^verbatim>\<open>summ\<close>. Iterating the items of chips that are still \<^verbatim>\<open>None\<close> is an
  \<^verbatim>\<open>AttributeError\<close>.
\<close>

definition ChipSeries_summarize :: "(chip_image \<Rightarrow> table) \<Rightarrow> chip_series \<Rightarrow> error + table" where
  "ChipSeries_summarize summ s =
     (case chips s of
        None \<Rightarrow> Inl (AttributeError ''items'')
      | Some d \<Rightarrow>
          let summaries = map (\<lambda>(i, r). set_column (series_indexer s) (IntCell i) (summ r)) d
          in (case pd_concat summaries of
                Inl e \<Rightarrow> Inl e
              | Inr t \<Rightarrow> Inr (sort_index t)))"

text \<open>Subscription of a dictionary, \<^verbatim>\<open>d[k]\<close>, and \<^verbatim>\<open>max\<close> of a sequence.\<close>

definition getitem :: "(int \<times> 'v) list \<Rightarrow> int \<Rightarrow> error + 'v" where
  "getitem d k = (case map_of d k of None \<Rightarrow> Inl (KeyError (IntKey k)) | Some v \<Rightarrow> Inr v)"

fun py_max :: "int list \<Rightarrow> error + int" where
  "py_max [] = Inl (ValueError ''max() arg is an empty sequence'')"
| "py_max (x # xs) = Inr (fold max xs x)"

definition get_hs_key :: "chip_series \<Rightarrow> error + int" where
  "get_hs_key s =
     (case chips s of
        None \<Rightarrow> Inl (AttributeError ''keys'')
      | Some d \<Rightarrow> py_max (map fst d))"

definition get_highstandard :: "chip_series \<Rightarrow> error + chip_image" where
  "get_highstandard s =
     (case get_hs_key s of
        Inl e \<Rightarrow> Inl e
      | Inr hk \<Rightarrow>
          (case chips s of
             None \<Rightarrow> Inl (TypeError ''NoneType object is not subscriptable'')
           | Some d \<Rightarrow> getitem d hk))"

text \<open>
  \<^verbatim>\<open>StandardSeries.map_from_hs\<close>. The loop runs over the set difference
  \<^verbatim>\<open>all_keys - reference_key\<close>; each round stamps the chip under the key and lets the
  high standard map onto it. A chip object mutated in place is written back under its
  key. Python does not fix the order in which a set is iterated; the model takes the
  keys in dictionary order, and \<^verbatim>\<open>map_from_hs_loop_order\<close> below shows that the order
  does not matter.
\<close>

fun map_from_hs_loop ::
  "chip_image \<Rightarrow> string option \<Rightarrow> int list \<Rightarrow> (int \<times> chip_image) list
     \<Rightarrow> error + (int \<times> chip_image) list" where
  "map_from_hs_loop hs mapto_args [] d = Inr d"
| "map_from_hs_loop hs mapto_args (k # ks) d =
     (case getitem d k of
        Inl e \<Rightarrow> Inl e
      | Inr c \<Rightarrow> map_from_hs_loop hs mapto_args ks (AList.update k (mapto hs (stamp c) mapto_args) d))"

definition map_from_hs :: "chip_series \<Rightarrow> string option \<Rightarrow> error + chip_series" where
  "map_from_hs s mapto_args =
     (case get_hs_key s of
        Inl e \<Rightarrow> Inl e
      | Inr hk \<Rightarrow>
          (case chips s of
             None \<Rightarrow> Inl (AttributeError ''keys'')
           | Some d \<Rightarrow>
               let reference_key = [hk];
                   all_keys = remdups (map fst d)
               in (case get_highstandard s of
                     Inl e \<Rightarrow> Inl e
                   | Inr hs \<Rightarrow>
                       (case map_from_hs_loop hs mapto_args
                               (filter (\<lambda>k. k \<notin> set reference_key) all_keys) d of
                          Inl e \<Rightarrow> Inl e
                        | Inr d' \<Rightarrow> Inr (s\<lparr>chips := Some d'\<rparr>)))))"

text \<open>
  \<^verbatim>\<open>StandardSeries.process\<close>: \<^verbatim>\<open>hs\<close> is the object stored under the high-standard key,
  so stamping it and finding its chambers changes the entry under that key before
  \<^verbatim>\<open>map_from_hs\<close> runs.
\<close>

definition StandardSeries_process :: "chip_series \<Rightarrow> string \<Rightarrow> error + chip_series" where
  "StandardSeries_process s featuretype =
     (case get_highstandard s of
        Inl e \<Rightarrow> Inl e
      | Inr hs \<Rightarrow>
          (case get_hs_key s of
             Inl e \<Rightarrow> Inl e
           | Inr hk \<Rightarrow>
               let hs' = findChambers (stamp hs)
               in map_from_hs (s\<lparr>chips := map_option (AList.update hk hs') (chips s)\<rparr>)
                    (Some featuretype)))"

section \<open>ChipQuant\<close>

record chip_quant = described +
  chip :: "chip_image option"
  processed :: bool

definition ChipQuant_init :: "device \<Rightarrow> string \<Rightarrow> (string \<times> string) list option \<Rightarrow> chip_quant" where
  "ChipQuant_init dev desc ats =
     \<lparr>device = dev, attrs = ats, description = desc, chip = None, processed = False\<rparr>"

definition load_file :: "chip_quant \<Rightarrow> string \<Rightarrow> string \<Rightarrow> int \<Rightarrow> chip_quant" where
  "load_file q path chan expo =
     q\<lparr>chip := Some (ChipImage (device q) path [] (corners (device q)) (pinlist (device q))
                      chan expo)\<rparr>"

definition invalid_feature_message :: string where
  "invalid_feature_message =
     ''Must specify valid feature name to map ('' @ [CHR 0x22] @ ''button'' @ [CHR 0x22]
     @ '', '' @ [CHR 0x22] @ ''chamber'' @ [CHR 0x22] @ '', or '' @ [CHR 0x22] @ ''all''
     @ [CHR 0x22]"

definition ChipQuant_process ::
  "chip_quant \<Rightarrow> chip_image option \<Rightarrow> string \<Rightarrow> error + chip_quant" where
  "ChipQuant_process q reference mapped_features =
     (case chip q of
        None \<Rightarrow> Inl (AttributeError ''stamp'')
      | Some c0 \<Rightarrow>
          let c = stamp c0
          in (case (case reference of
                     None \<Rightarrow>
                       if mapped_features = ''button'' then Inr (findButtons c)
                       else if mapped_features = ''chamber'' then Inr (findChambers c)
                       else if mapped_features = ''all'' then Inr (findChambers (findButtons c))
                       else Inl (ValueError invalid_feature_message)
                   | Some r \<Rightarrow> Inr (mapto r c (Some mapped_features))) of
               Inl e \<Rightarrow> Inl e
             | Inr c' \<Rightarrow> Inr (q\<lparr>chip := Some c', processed := True\<rparr>)))"

text \<open>
  \<^verbatim>\<open>ChipQuant.summarize\<close>, returned together with the object as the call leaves it.
\<close>

definition ChipQuant_summarize ::
  "(chip_image \<Rightarrow> table) \<Rightarrow> chip_quant \<Rightarrow> (error + table) \<times> chip_quant" where
  "ChipQuant_summarize summ q =
     (if processed q then
        (case chip q of
           None \<Rightarrow> (Inl (AttributeError ''summarize''), q)
         | Some c \<Rightarrow> (Inr (summ c), q))
      else (Inl (ValueError ''Must first Process ChipQuant''), q))"

text \<open>
  \<^verbatim>\<open>ChipQuant.save_summary_image\<close>. The module \<^verbatim>\<open>os\<close> has no attribute \<^verbatim>\<open>isdir\<close> (the
  directory test of the standard library is \<^verbatim>\<open>os.path.isdir\<close>), so evaluating
  \<^verbatim>\<open>os.isdir\<close> raises before anything is asked of the file system. \<^verbatim>\<open>makedirs\<close> is
  \<^verbatim>\<open>os.makedirs(target, exist_ok=True)\<close> and \<^verbatim>\<open>imsave\<close> writes the image file.
\<close>

definition os_isdir :: "filesystem \<Rightarrow> string \<Rightarrow> error + bool" where
  "os_isdir fs p = Inl (AttributeError ''isdir'')"

definition makedirs :: "filesystem \<Rightarrow> string \<Rightarrow> filesystem" where
  "makedirs fs p =
     (let wanted = map (\<lambda>n. take n p) (filter (\<lambda>n. p ! n = CHR ''/'') [1..<length p]) @ [p]
      in fs\<lparr>dirs := dirs fs @ filter (\<lambda>d. d \<notin> set (dirs fs)) wanted\<rparr>)"

definition imsave :: "filesystem \<Rightarrow> string \<Rightarrow> filesystem" where
  "imsave fs p = (if p \<in> set (files fs) then fs else fs\<lparr>files := files fs @ [p]\<rparr>)"

definition save_summary_image :: "filesystem \<Rightarrow> chip_quant \<Rightarrow> string option \<Rightarrow> error + filesystem" where
  "save_summary_image fs q outPath_root =
     (case chip q of
        None \<Rightarrow> Inl (AttributeError ''data_ref'')
      | Some c \<Rightarrow>
          (case (if truthy outPath_root then
                   (case os_isdir fs (the outPath_root) of
                      Inl e \<Rightarrow> Inl e
                    | Inr isdir \<Rightarrow>
                        if \<not> isdir then
                          Inl (ValueError (''Export directory does not exist: '' @ the outPath_root))
                        else Inr (the outPath_root))
                 else Inr (path_parent (data_ref c))) of
             Inl e \<Rightarrow> Inl e
           | Inr outPath \<Rightarrow>
               let target = os_path_join outPath ''SummaryImages'';
                   fs1 = makedirs fs target;
                   name = ''Summary_'' @ path_stem (data_ref c) @ ''.tif'';
                   outDir = os_path_join target name
               in Inr (imsave fs1 outDir)))"

section \<open>Assay and TurnoverAssay\<close>

record assay = described +
  series :: "chip_series option"
  quants :: "chip_quant list"

definition TurnoverAssay_init :: "device \<Rightarrow> string \<Rightarrow> assay" where
  "TurnoverAssay_init dev desc =
     \<lparr>device = dev, attrs = None, description = desc, series = None, quants = []\<rparr>"

definition add_quant :: "assay \<Rightarrow> chip_quant \<Rightarrow> assay" where
  "add_quant a c = a\<lparr>quants := quants a @ [c]\<rparr>"

text \<open>
  \<^verbatim>\<open>TurnoverAssay.merge_summarize\<close>. The loop body computes \<^verbatim>\<open>toAdd\<close>, the summary
  without its \<^verbatim>\<open>id\<close> column, and then appends the suffixed \<^verbatim>\<open>summary\<close>.
\<close>

fun quants_cleaned :: "(chip_image \<Rightarrow> table) \<Rightarrow> chip_quant list \<Rightarrow> error + table list" where
  "quants_cleaned summ [] = Inr []"
| "quants_cleaned summ (quant # qs) =
     (case chip quant of
        None \<Rightarrow> Inl (AttributeError ''summarize'')
      | Some c \<Rightarrow>
          let desc = description quant;
              summary = summ c
          in (case drop_columns [''id''] summary of
                Inl e \<Rightarrow> Inl e
              | Inr toAdd \<Rightarrow>
                  (case quants_cleaned summ qs of
                     Inl e \<Rightarrow> Inl e
                   | Inr rest \<Rightarrow>
                       Inr ((add_suffix (''_'' @ replace_spaces desc) summary) # rest))))"

definition merge_summarize :: "(chip_image \<Rightarrow> table) \<Rightarrow> assay \<Rightarrow> error + table" where
  "merge_summarize summ a =
     (case quants_cleaned summ (quants a) of
        Inl e \<Rightarrow> Inl e
      | Inr qc \<Rightarrow>
          (case series a of
             None \<Rightarrow> Inl (AttributeError ''summarize'')
           | Some s \<Rightarrow>
               (case ChipSeries_summarize summ s of
                  Inl e \<Rightarrow> Inl e
                | Inr kinSummary \<Rightarrow> Inr (join_left kinSummary qc))))"

section \<open>AssaySeries\<close>

record assay_series = owned +
  assays :: "(string \<times> assay) list"
  chamber_ref :: chip_image
  button_ref :: chip_image
  chamber_root :: "string option"
  button_root :: "string option"

definition AssaySeries_init ::
  "device \<Rightarrow> string list \<Rightarrow> chip_image \<Rightarrow> chip_image \<Rightarrow> (string \<times> string) list option
     \<Rightarrow> assay_series" where
  "AssaySeries_init dev descriptions cref bref ats =
     \<lparr>device = dev, attrs = ats,
      assays = fold (\<lambda>d acc. AList.update d (TurnoverAssay_init dev d) acc) descriptions [],
      chamber_ref = cref, button_ref = bref, chamber_root = None, button_root = None\<rparr>"

text \<open>\<^verbatim>\<open>zip\<close> of four sequences stops with the shortest.\<close>

definition zip4 :: "'a list \<Rightarrow> 'b list \<Rightarrow> 'c list \<Rightarrow> 'd list \<Rightarrow> ('a \<times> 'b \<times> 'c \<times> 'd) list" where
  "zip4 ws xs ys zs = zip ws (zip xs (zip ys zs))"

text \<open>
  \<^verbatim>\<open>AssaySeries.load_kin\<close>. One round of the loop builds a \<^verbatim>\<open>Timecourse\<close>, loads its
  files (\<^verbatim>\<open>new_timecourse\<close>) and stores it as the series of the assay under the
  description.
\<close>

definition new_timecourse ::
  "filesystem \<Rightarrow> device \<Rightarrow> string \<Rightarrow> string \<Rightarrow> string \<Rightarrow> int \<Rightarrow> error + chip_series" where
  "new_timecourse fs dev desc p chan expo =
     (case Timecourse_init dev desc None of
        Inl e \<Rightarrow> Inl e
      | Inr t \<Rightarrow> load_files fs t p chan expo None None)"

fun load_kin_loop ::
  "filesystem \<Rightarrow> device \<Rightarrow> (string \<times> string \<times> string \<times> int) list \<Rightarrow> (string \<times> assay) list
     \<Rightarrow> error + (string \<times> assay) list" where
  "load_kin_loop fs dev [] asy = Inr asy"
| "load_kin_loop fs dev ((desc, p, chan, expo) # refs) asy =
     (case new_timecourse fs dev desc p chan expo of
        Inl e \<Rightarrow> Inl e
      | Inr t \<Rightarrow>
          (case map_of asy desc of
             None \<Rightarrow> Inl (KeyError (StrKey desc))
           | Some a \<Rightarrow> load_kin_loop fs dev refs (AList.update desc (a\<lparr>series := Some t\<rparr>) asy)))"

definition kin_refs ::
  "assay_series \<Rightarrow> string list \<Rightarrow> string list \<Rightarrow> string \<Rightarrow> int
     \<Rightarrow> (string \<times> string \<times> string \<times> int) list" where
  "kin_refs a descriptions paths chan expo =
     (let len_series = length (assays a)
      in zip4 descriptions paths (replicate len_series chan) (replicate len_series expo))"

definition length_mismatch_message :: string where
  "length_mismatch_message =
     ''Descriptions and series of different lengths. Number of assays and descriptions must match.''"

definition load_kin ::
  "filesystem \<Rightarrow> assay_series \<Rightarrow> string list \<Rightarrow> string list \<Rightarrow> string \<Rightarrow> int
     \<Rightarrow> error + assay_series" where
  "load_kin fs a descriptions paths chan expo =
     (let len_series = length (assays a);
          len_descriptions = length descriptions
      in if len_descriptions \<noteq> len_series then Inl (ValueError length_mismatch_message)
         else (case load_kin_loop fs (device a) (kin_refs a descriptions paths chan expo)
                      (assays a) of
                 Inl e \<Rightarrow> Inl e
               | Inr asy \<Rightarrow> Inr (a\<lparr>assays := asy\<rparr>)))"

text \<open>
  \<^verbatim>\<open>AssaySeries.load_quants\<close>. One round of the loop builds a \<^verbatim>\<open>ChipQuant\<close> described
  as \<^verbatim>\<open>Button_Quant\<close>, loads the file (\<^verbatim>\<open>new_quant\<close>) and appends it to the assay under
  the description.
\<close>

definition new_quant :: "device \<Rightarrow> string \<Rightarrow> string \<Rightarrow> int \<Rightarrow> chip_quant" where
  "new_quant dev p chan expo = load_file (ChipQuant_init dev ''Button_Quant'' None) p chan expo"

fun load_quants_loop ::
  "device \<Rightarrow> (string \<times> string \<times> string \<times> int) list \<Rightarrow> (string \<times> assay) list
     \<Rightarrow> error + (string \<times> assay) list" where
  "load_quants_loop dev [] asy = Inr asy"
| "load_quants_loop dev ((desc, p, chan, expo) # refs) asy =
     (let q = new_quant dev p chan expo
      in (case map_of asy desc of
            None \<Rightarrow> Inl (KeyError (StrKey desc))
          | Some a \<Rightarrow> load_quants_loop dev refs (AList.update desc (add_quant a q) asy)))"

definition bq_refs ::
  "assay_series \<Rightarrow> string list \<Rightarrow> string list \<Rightarrow> string \<Rightarrow> int
     \<Rightarrow> (string \<times> string \<times> string \<times> int) list" where
  "bq_refs a descriptions paths chan expo =
     (let len_series = length (assays a);
          descriptions1 = (if length descriptions = 1 then map fst (assays a) else descriptions);
          paths1 = (if length descriptions = 1 then concat (replicate len_series paths) else paths)
      in zip4 descriptions1 paths1 (replicate len_series chan) (replicate len_series expo))"

definition load_quants ::
  "assay_series \<Rightarrow> string list \<Rightarrow> string list \<Rightarrow> string \<Rightarrow> int \<Rightarrow> error + assay_series" where
  "load_quants a descriptions paths chan expo =
     (if length descriptions \<noteq> length paths then
        Inl (ValueError ''Descriptions and paths must be of same length'')
      else case load_quants_loop (device a) (bq_refs a descriptions paths chan expo) (assays a) of
             Inl e \<Rightarrow> Inl e
           | Inr asy \<Rightarrow> Inr (a\<lparr>assays := asy\<rparr>))"

section \<open>Example objects\<close>

text \<open>Concrete inputs at which the theorems below are evaluated.\<close>

definition demo_device :: device where
  "demo_device = \<lparr>setup_name = ''s1'', dname = ''d1'', corners = [], pinlist = []\<rparr>"

definition demo_fs_img :: filesystem where
  "demo_fs_img =
     \<lparr>dirs = [''/data''],
      files = [''/data/img_1.tif'', ''/data/img_2.tif'', ''/data/img_5.tif'']\<rparr>"

definition demo_fs_stitched :: filesystem where
  "demo_fs_stitched =
     \<lparr>dirs = [''/data''],
      files = [''/data/StitchedImg_1.tif'', ''/data/StitchedImg_2.tif'',
               ''/data/StitchedImg_5.tif'']\<rparr>"

definition demo_series :: chip_series where
  "demo_series =
     \<lparr>device = demo_device, attrs = None, description = ''kin'',
      series_indexer = ''time_s'', chips = None, series_root = None\<rparr>"

definition demo_chip :: "string \<Rightarrow> chip_image" where
  "demo_chip p = ChipImage demo_device p [] [] [] ''egfp'' 500"

definition demo_summ :: "chip_image \<Rightarrow> table" where
  "demo_summ c =
     \<lparr>columns = [''id'', ''x''],
      rows = [(0, [(''id'', StrCell (data_ref c)), (''x'', IntCell 7)])]\<rparr>"

definition demo_quant :: chip_quant where
  "demo_quant = new_quant demo_device ''/quant/BGSubtracted_StitchedImg_0.tif'' ''egfp'' 500"

definition demo_summ2 :: "chip_image \<Rightarrow> table" where
  "demo_summ2 c =
     \<lparr>columns = [''id'', ''x''],
      rows = [(1, [(''id'', StrCell (data_ref c)), (''x'', IntCell 8)]),
              (0, [(''id'', StrCell (data_ref c)), (''x'', IntCell 7)])]\<rparr>"

definition demo_chips :: "(int \<times> chip_image) list" where
  "demo_chips = [(5, demo_chip ''/kin/StitchedImg_5.tif''), (2, demo_chip ''/kin/StitchedImg_2.tif'')]"

definition demo_loaded_series :: chip_series where
  "demo_loaded_series = demo_series\<lparr>chips := Some demo_chips\<rparr>"

definition demo_assay :: assay where
  "demo_assay =
     \<lparr>device = demo_device, attrs = None, description = ''a1'',
      series = Some (demo_series\<lparr>chips := Some [(3, demo_chip ''/kin/StitchedImg_3.tif'')]\<rparr>),
      quants = [demo_quant]\<rparr>"

definition demo_fs_kin :: filesystem where
  "demo_fs_kin =
     \<lparr>dirs = [''/kin'', ''/kin/a'', ''/kin/b''],
      files = [''/kin/a/StitchedImg_10.tif'', ''/kin/b/StitchedImg_20.tif'',
               ''/kin/b/StitchedImg_30.tif'']\<rparr>"

definition demo_assay_series :: assay_series where
  "demo_assay_series =
     AssaySeries_init demo_device [''a'', ''b''] (demo_chip ''/ref/chamber.tif'')
       (demo_chip ''/ref/button.tif'') None"

definition demo_timecourse :: "string \<Rightarrow> chip_series" where
  "demo_timecourse d =
     (case new_timecourse demo_fs_kin demo_device d (''/kin/'' @ d) ''egfp'' 500 of
        Inl e \<Rightarrow> demo_series
      | Inr t \<Rightarrow> t)"

section \<open>Construction\<close>

text \<open>
  Claim C9. Whatever the arguments, \<^verbatim>\<open>ChipSeries.__init__\<close> ends in a \<^verbatim>\<open>NameError\<close>
  for the name \<^verbatim>\<open>description\<close>, and so does the constructor \<^verbatim>\<open>Titration\<close> inherits;
  the two subclasses that define their own constructor, \<^verbatim>\<open>StandardSeries\<close> and
  \<^verbatim>\<open>Timecourse\<close>, return an object.
\<close>

theorem ChipSeries_init_NameError:
  "ChipSeries_init dev series_index ats = Inl (NameError ''description'')
   \<and> Titration_init dev series_index ats = Inl (NameError ''description'')
   \<and> (\<exists>s. StandardSeries_init dev desc ats = Inr s)
   \<and> (\<exists>s. Timecourse_init dev desc ats = Inr s)"
  by (simp add: ChipSeries_init_def Titration_init_def StandardSeries_init_def
      Timecourse_init_def load_global_def module_globals_def)

section \<open>Loading the files of a series\<close>

lemmas path_defs = path_glob_def os_path_isdir_def iterdir_def path_parent_def path_name_def
  keep_image_def
  path_stem_def os_path_join_def last_field_def py_int_def strip_def is_space_def
  unsigned_int_def digit_of_def

text \<open>
  Claim C10. With a truthy \<^verbatim>\<open>indexes\<close> argument \<^verbatim>\<open>load_files\<close> sets \<^verbatim>\<open>series_root\<close> to
  the root and changes nothing else: the chips and every other field are as before, for
  any file system and any custom pattern.
\<close>

theorem load_files_indexes_noop:
  "truthy indexes \<Longrightarrow>
   load_files fs s root chan expo indexes custom_glob = Inr (s\<lparr>series_root := Some root\<rparr>)"
  by (simp add: load_files_def Let_def)

theorem load_files_indexes_noop_witness:
  "truthy (Some [1, 2 :: int])
   \<and> load_files demo_fs_stitched demo_series ''/data'' ''egfp'' 500 (Some [1, 2]) None
       = Inr (demo_series\<lparr>series_root := Some ''/data''\<rparr>)
   \<and> chips (demo_series\<lparr>series_root := Some ''/data''\<rparr>) = chips demo_series"
  using load_files_indexes_noop
    [of "Some [1, 2]" demo_fs_stitched demo_series "''/data''" "''egfp''" 500 None]
  by simp

text \<open>
  Claim C3, as stated, fails: in a directory holding exactly \<^verbatim>\<open>img_1.tif\<close>,
  \<^verbatim>\<open>img_2.tif\<close> and \<^verbatim>\<open>img_5.tif\<close> the default pattern \<^verbatim>\<open>*StitchedImg*.tif\<close> matches
  no file, so the key set is not \<^verbatim>\<open>{1, 2, 5}\<close>.
\<close>

theorem load_files_img_counterexample:
  "\<not> (\<exists>s'. load_files demo_fs_img demo_series ''/data'' ''egfp'' 500 None None = Inr s'
          \<and> chip_keys s' = {1, 2, 5})"
  by (simp add: load_files_def demo_fs_img_def demo_series_def path_defs chip_keys_def)

text \<open>
  Claim C3, amended. For every series, channel and exposure: with the defaults, the
  directory of \<^verbatim>\<open>img_1.tif\<close>, \<^verbatim>\<open>img_2.tif\<close>, \<^verbatim>\<open>img_5.tif\<close> loads no chip; a directory
  holding exactly \<^verbatim>\<open>StitchedImg_1.tif\<close>, \<^verbatim>\<open>StitchedImg_2.tif\<close>, \<^verbatim>\<open>StitchedImg_5.tif\<close>
  loads the keys \<^verbatim>\<open>{1, 2, 5}\<close>, each key bound to the chip of the file whose stem ends
  in that integer after the last underscore; and the \<^verbatim>\<open>img_\<close> files load under those
  keys once a custom pattern that matches them, \<^verbatim>\<open>*.tif\<close>, is passed.
\<close>

theorem load_files_keys:
  "(\<exists>s'. load_files demo_fs_img s ''/data'' chan expo None None = Inr s' \<and> chip_keys s' = {})
   \<and> (\<exists>s'. load_files demo_fs_stitched s ''/data'' chan expo None None = Inr s'
          \<and> chip_keys s' = {1, 2, 5}
          \<and> map_option (map (\<lambda>(k, c). (k, data_ref c))) (chips s')
              = Some [(1, ''/data/StitchedImg_1.tif''), (2, ''/data/StitchedImg_2.tif''),
                      (5, ''/data/StitchedImg_5.tif'')])
   \<and> (\<exists>s'. load_files demo_fs_img s ''/data'' chan expo None (Some ''*.tif'') = Inr s'
          \<and> chip_keys s' = {1, 2, 5})"
  by (simp add: load_files_def demo_fs_img_def demo_fs_stitched_def path_defs chip_keys_def
      ChipImage_def)

section \<open>ChipQuant: summary and summary image\<close>

lemma ChipQuant_process_loaded:
  "ChipQuant_process q reference mapped_features = Inr q' \<Longrightarrow> processed q' \<and> chip q' \<noteq> None"
  by (auto simp: ChipQuant_process_def Let_def split: option.splits sum.splits if_splits)

text \<open>
  Claim C4. \<^verbatim>\<open>ChipQuant.summarize\<close> raises its \<^verbatim>\<open>ValueError\<close> exactly when
  \<^verbatim>\<open>processed\<close> is false; for a quant that holds a chip it raises at all exactly then;
  when \<^verbatim>\<open>processed\<close> is true it returns the summary table of the chip it holds; and the
  object is the same after the call as before.
\<close>

theorem ChipQuant_summarize_gate:
  "((fst (ChipQuant_summarize summ q) = Inl (ValueError ''Must first Process ChipQuant''))
      = (\<not> processed q))
   \<and> (chip q = Some c \<longrightarrow> ((\<exists>e. fst (ChipQuant_summarize summ q) = Inl e) = (\<not> processed q)))
   \<and> (processed q \<and> chip q = Some c \<longrightarrow> fst (ChipQuant_summarize summ q) = Inr (summ c))
   \<and> snd (ChipQuant_summarize summ q) = q"
  by (auto simp: ChipQuant_summarize_def split: option.splits)

theorem ChipQuant_summarize_gate_witness:
  "processed (demo_quant\<lparr>processed := True\<rparr>)
   \<and> chip (demo_quant\<lparr>processed := True\<rparr>)
       = Some (demo_chip ''/quant/BGSubtracted_StitchedImg_0.tif'')
   \<and> fst (ChipQuant_summarize demo_summ (demo_quant\<lparr>processed := True\<rparr>))
       = Inr (demo_summ (demo_chip ''/quant/BGSubtracted_StitchedImg_0.tif''))
   \<and> \<not> processed demo_quant
   \<and> fst (ChipQuant_summarize demo_summ demo_quant)
       = Inl (ValueError ''Must first Process ChipQuant'')"
  using ChipQuant_summarize_gate
    [of demo_summ "demo_quant\<lparr>processed := True\<rparr>"
        "demo_chip ''/quant/BGSubtracted_StitchedImg_0.tif''"]
    ChipQuant_summarize_gate [of demo_summ demo_quant]
  by (simp add: demo_quant_def new_quant_def load_file_def ChipQuant_init_def demo_chip_def
      demo_device_def)

text \<open>
  Claim C2 does not hold of the code: for a quant that holds a chip and any non-empty
  export root, whether the directory exists or not, \<^verbatim>\<open>save_summary_image\<close> ends in the
  \<^verbatim>\<open>AttributeError\<close> of \<^verbatim>\<open>os.isdir\<close>; it neither raises the \<^verbatim>\<open>ValueError\<close> for a
  missing directory nor writes an image under an existing one.
\<close>

theorem save_summary_image_export_root:
  "chip q = Some c \<Longrightarrow> root \<noteq> [] \<Longrightarrow>
   save_summary_image fs q (Some root) = Inl (AttributeError ''isdir'')"
  by (simp add: save_summary_image_def os_isdir_def)

theorem save_summary_image_export_root_witness:
  "chip demo_quant = Some (demo_chip ''/quant/BGSubtracted_StitchedImg_0.tif'')
   \<and> os_path_isdir demo_fs_stitched ''/data''
   \<and> save_summary_image demo_fs_stitched demo_quant (Some ''/data'')
       = Inl (AttributeError ''isdir'')
   \<and> \<not> os_path_isdir demo_fs_stitched ''/nowhere''
   \<and> save_summary_image demo_fs_stitched demo_quant (Some ''/nowhere'')
       = Inl (AttributeError ''isdir'')"
  using save_summary_image_export_root
    [of demo_quant "demo_chip ''/quant/BGSubtracted_StitchedImg_0.tif''" "''/data''"
        demo_fs_stitched]
    save_summary_image_export_root
    [of demo_quant "demo_chip ''/quant/BGSubtracted_StitchedImg_0.tif''" "''/nowhere''"
        demo_fs_stitched]
  by (simp add: demo_quant_def new_quant_def load_file_def ChipQuant_init_def demo_chip_def
      demo_device_def os_path_isdir_def demo_fs_stitched_def)

text \<open>
  Without an export root the image goes to \<^verbatim>\<open>SummaryImages\<close> beside the chip's own
  file, under the name \<^verbatim>\<open>Summary_<stem>.tif\<close>.
\<close>

lemma save_summary_image_default:
  "save_summary_image demo_fs_stitched demo_quant None
     = Inr \<lparr>dirs = [''/data'', ''/quant'', ''/quant/SummaryImages''],
            files = [''/data/StitchedImg_1.tif'', ''/data/StitchedImg_2.tif'',
                     ''/data/StitchedImg_5.tif'',
                     ''/quant/SummaryImages/Summary_BGSubtracted_StitchedImg_0.tif'']\<rparr>"
  by (simp add: save_summary_image_def demo_quant_def new_quant_def load_file_def
      ChipQuant_init_def ChipImage_def demo_fs_stitched_def path_defs makedirs_def imsave_def
      upt_conv_Cons)

section \<open>The summary of a series\<close>

lemma set_ordered_union: "set (ordered_union acc cs) = set acc \<union> set cs"
  by (induction cs arbitrary: acc) auto

lemma stamped_rows:
  "concat (map rows (map (\<lambda>(i, r). set_column ind (IntCell i) (summ r)) d))
     = concat (map (\<lambda>(i, r). map (\<lambda>(ix, cs). (ix, AList.update ind (IntCell i) cs))
                                 (rows (summ r))) d)"
  by (induction d) (auto simp: set_column_def)

lemma stamped_columns:
  "d \<noteq> [] \<Longrightarrow>
   ind \<in> set (concat (map columns (map (\<lambda>(i, r). set_column ind (IntCell i) (summ r)) d)))"
  by (cases d) (auto simp: set_column_def)

text \<open>
  Claim C8. Summarising a series with no chips fails with the \<^verbatim>\<open>ValueError\<close> of
  concatenating nothing. With at least one chip the call returns a table whose rows are
  exactly the rows of the chips' summaries, each with its chip's key in the column
  named by \<^verbatim>\<open>series_indexer\<close> (which is a column of the result), in ascending order of
  the row index.
\<close>

theorem ChipSeries_summarize_rows:
  "(chips s = Some [] \<longrightarrow>
      ChipSeries_summarize summ s = Inl (ValueError ''No objects to concatenate''))
   \<and> (chips s = Some d \<and> d \<noteq> [] \<longrightarrow>
       (\<exists>t. ChipSeries_summarize summ s = Inr t
          \<and> sorted (map fst (rows t))
          \<and> mset (rows t)
              = mset (concat (map (\<lambda>(i, r).
                   map (\<lambda>(ix, cs). (ix, AList.update (series_indexer s) (IntCell i) cs))
                     (rows (summ r))) d))
          \<and> series_indexer s \<in> set (columns t)
          \<and> (\<forall>row \<in> set (rows t). \<exists>i \<in> fst ` set d.
                map_of (snd row) (series_indexer s) = Some (IntCell i))))"
proof (intro conjI impI)
  assume "chips s = Some []"
  then show "ChipSeries_summarize summ s = Inl (ValueError ''No objects to concatenate'')"
    by (simp add: ChipSeries_summarize_def pd_concat_def)
next
  assume a: "chips s = Some d \<and> d \<noteq> []"
  let ?ind = "series_indexer s"
  let ?summaries = "map (\<lambda>(i, r). set_column ?ind (IntCell i) (summ r)) d"
  let ?t = "sort_index \<lparr>columns = ordered_union [] (concat (map columns ?summaries)),
                          rows = concat (map rows ?summaries)\<rparr>"
  have r: "ChipSeries_summarize summ s = Inr ?t"
    using a by (simp add: ChipSeries_summarize_def pd_concat_def)
  have rows_t: "rows ?t = sort_key fst (concat (map rows ?summaries))"
    by (simp add: sort_index_def)
  have s1: "sorted (map fst (rows ?t))"
    unfolding rows_t by (rule sorted_sort_key)
  have s2: "mset (rows ?t)
      = mset (concat (map (\<lambda>(i, r).
           map (\<lambda>(ix, cs). (ix, AList.update ?ind (IntCell i) cs)) (rows (summ r))) d))"
    unfolding rows_t by (simp only: mset_sort stamped_rows)
  have s3: "?ind \<in> set (columns ?t)"
    using a stamped_columns [of d ?ind summ] by (simp add: sort_index_def set_ordered_union)
  have s4: "\<forall>row \<in> set (rows ?t). \<exists>i \<in> fst ` set d.
      map_of (snd row) ?ind = Some (IntCell i)"
  proof
    fix row assume "row \<in> set (rows ?t)"
    then have "row \<in># mset (rows ?t)" by simp
    then have "row \<in> set (concat (map (\<lambda>(i, r).
           map (\<lambda>(ix, cs). (ix, AList.update ?ind (IntCell i) cs)) (rows (summ r))) d))"
      unfolding s2 by simp
    then obtain i r ix cs where "(i, r) \<in> set d" "row = (ix, AList.update ?ind (IntCell i) cs)"
      by auto
    then show "\<exists>i \<in> fst ` set d. map_of (snd row) ?ind = Some (IntCell i)"
      by (force simp: update_conv')
  qed
  show "\<exists>t. ChipSeries_summarize summ s = Inr t
          \<and> sorted (map fst (rows t))
          \<and> mset (rows t)
              = mset (concat (map (\<lambda>(i, r).
                   map (\<lambda>(ix, cs). (ix, AList.update (series_indexer s) (IntCell i) cs))
                     (rows (summ r))) d))
          \<and> series_indexer s \<in> set (columns t)
          \<and> (\<forall>row \<in> set (rows t). \<exists>i \<in> fst ` set d.
                map_of (snd row) (series_indexer s) = Some (IntCell i))"
    using r s1 s2 s3 s4 by blast
qed

theorem ChipSeries_summarize_rows_witness:
  "chips (demo_series\<lparr>chips := Some []\<rparr>) = Some []
   \<and> ChipSeries_summarize demo_summ2 (demo_series\<lparr>chips := Some []\<rparr>)
       = Inl (ValueError ''No objects to concatenate'')
   \<and> chips demo_loaded_series = Some demo_chips \<and> demo_chips \<noteq> []
   \<and> (\<exists>t. ChipSeries_summarize demo_summ2 demo_loaded_series = Inr t
          \<and> map fst (rows t) = [0, 0, 1, 1]
          \<and> sorted (map fst (rows t))
          \<and> map (\<lambda>row. map_of (snd row) ''time_s'') (rows t)
              = [Some (IntCell 5), Some (IntCell 2), Some (IntCell 5), Some (IntCell 2)]
          \<and> columns t = [''id'', ''x'', ''time_s''])"
  using ChipSeries_summarize_rows [of "demo_series\<lparr>chips := Some []\<rparr>" demo_summ2 "[]"]
    ChipSeries_summarize_rows [of demo_loaded_series demo_summ2 demo_chips]
  by (simp add: demo_loaded_series_def demo_chips_def demo_series_def ChipSeries_summarize_def
      pd_concat_def sort_index_def set_column_def demo_summ2_def demo_chip_def ChipImage_def)

section \<open>The merged summary of an assay\<close>

text \<open>
  Claim C1 does not hold of the code. Whenever the cleaning loop of
  \<^verbatim>\<open>merge_summarize\<close> succeeds, every quant's summary had an \<^verbatim>\<open>id\<close> column, and the
  table handed to the join for a quant is its whole summary with the suffix added: the
  column \<^verbatim>\<open>id\<close> is still there, renamed \<^verbatim>\<open>id_<description>\<close>. The table without
  \<^verbatim>\<open>id\<close> that the loop computes is never used.
\<close>

theorem quants_cleaned_keeps_id:
  "quants_cleaned summ qs = Inr ts \<Longrightarrow>
   ts = map (\<lambda>q. add_suffix (''_'' @ replace_spaces (description q)) (summ (the (chip q)))) qs
   \<and> (\<forall>q \<in> set qs. ''id'' \<in> set (columns (summ (the (chip q)))))
   \<and> (\<forall>q \<in> set qs. ''id_'' @ replace_spaces (description q)
         \<in> set (columns (add_suffix (''_'' @ replace_spaces (description q))
                            (summ (the (chip q))))))"
proof (induction qs arbitrary: ts)
  case Nil
  then show ?case by simp
next
  case (Cons q qs)
  then show ?case
    by (auto simp: Let_def drop_columns_def add_suffix_def
        split: option.splits sum.splits list.splits if_splits)
qed

text \<open>
  At a concrete assay with one chip in its series and one quant, the joined table
  carries the column \<^verbatim>\<open>id_Button_Quant\<close>.
\<close>

theorem quants_cleaned_keeps_id_witness:
  "quants_cleaned demo_summ (quants demo_assay)
     = Inr [\<lparr>columns = [''id_Button_Quant'', ''x_Button_Quant''],
             rows = [(0, [(''id_Button_Quant'', StrCell ''/quant/BGSubtracted_StitchedImg_0.tif''),
                          (''x_Button_Quant'', IntCell 7)])]\<rparr>]
   \<and> merge_summarize demo_summ demo_assay
     = Inr \<lparr>columns = [''id'', ''x'', ''time_s'', ''id_Button_Quant'', ''x_Button_Quant''],
            rows = [(0, [(''id'', StrCell ''/kin/StitchedImg_3.tif''), (''x'', IntCell 7),
                         (''time_s'', IntCell 3),
                         (''id_Button_Quant'', StrCell ''/quant/BGSubtracted_StitchedImg_0.tif''),
                         (''x_Button_Quant'', IntCell 7)])]\<rparr>"
  using quants_cleaned_keeps_id [of demo_summ "quants demo_assay"]
  by (simp add: demo_assay_def demo_quant_def new_quant_def load_file_def ChipQuant_init_def
      ChipImage_def demo_summ_def drop_columns_def add_suffix_def replace_spaces_def
      merge_summarize_def ChipSeries_summarize_def demo_series_def pd_concat_def sort_index_def
      set_column_def demo_chip_def join_left_def left_merge_def Let_def)

section \<open>Processing a StandardSeries\<close>

lemma py_max_Max: "xs \<noteq> [] \<Longrightarrow> py_max xs = Inr (Max (set xs))"
proof (cases xs)
  case Nil
  assume "xs \<noteq> []"
  with Nil show ?thesis by simp
next
  case (Cons x ys)
  have "fold max ys x = Max (set (x # ys))"
    by (rule Max.set_eq_fold [symmetric])
  with Cons show ?thesis by simp
qed

lemma key_has_value: "k \<in> fst ` set d \<Longrightarrow> \<exists>c. map_of d k = Some c"
  by (cases "map_of d k") (simp_all add: map_of_eq_None_iff)

lemma value_has_key: "map_of d k = Some c \<Longrightarrow> k \<in> fst ` set d"
  using map_of_eq_None_iff [of d k] by auto

lemma update_same_keys: "k \<in> fst ` set d \<Longrightarrow> map fst (AList.update k v d) = map fst d"
  by (simp add: update_keys)

lemma same_keys_image: "map fst d1 = map fst d \<Longrightarrow> fst ` set d1 = fst ` set d"
proof -
  assume "map fst d1 = map fst d"
  then have "set (map fst d1) = set (map fst d)" by simp
  then show ?thesis by simp
qed

lemma map_from_hs_loop_ok:
  "set ks \<subseteq> fst ` set d \<Longrightarrow> distinct ks \<Longrightarrow>
   \<exists>d'. map_from_hs_loop hs a ks d = Inr d' \<and> map fst d' = map fst d \<and>
        (\<forall>k. map_of d' k = (if k \<in> set ks then map_option (\<lambda>c. mapto hs (stamp c) a) (map_of d k)
                             else map_of d k))"
proof (induction ks arbitrary: d)
  case Nil
  then show ?case by simp
next
  case (Cons k ks)
  from Cons.prems have kd: "k \<in> fst ` set d" by simp
  from key_has_value [OF kd] obtain c where c: "map_of d k = Some c" ..
  let ?d1 = "AList.update k (mapto hs (stamp c) a) d"
  have keys1: "map fst ?d1 = map fst d"
    using \<open>k \<in> fst ` set d\<close> by (rule update_same_keys)
  have img1: "fst ` set ?d1 = fst ` set d"
    using keys1 by (rule same_keys_image)
  have p1: "set ks \<subseteq> fst ` set ?d1" using Cons.prems(1) unfolding img1 by simp
  have p2: "distinct ks" using Cons.prems(2) by simp
  from Cons.IH [OF p1 p2] obtain d' where dd:
    "map_from_hs_loop hs a ks ?d1 = Inr d' \<and> map fst d' = map fst ?d1 \<and>
     (\<forall>k'. map_of d' k' =
        (if k' \<in> set ks then map_option (\<lambda>c. mapto hs (stamp c) a) (map_of ?d1 k')
         else map_of ?d1 k'))" ..
  from dd have d1: "map_from_hs_loop hs a ks ?d1 = Inr d'" by (rule conjunct1)
  from dd have d2: "map fst d' = map fst ?d1" by (rule conjunct2 [THEN conjunct1])
  from dd have d3: "\<forall>k'. map_of d' k' =
        (if k' \<in> set ks then map_option (\<lambda>c. mapto hs (stamp c) a) (map_of ?d1 k')
         else map_of ?d1 k')" by (rule conjunct2 [THEN conjunct2])
  have r1: "map_from_hs_loop hs a (k # ks) d = Inr d'"
    using c d1 by (simp add: getitem_def)
  have r2: "map fst d' = map fst d"
    using d2 keys1 by simp
  have kn: "k \<notin> set ks" using Cons.prems(2) by simp
  have r3: "\<forall>k'. map_of d' k' =
      (if k' \<in> set (k # ks) then map_option (\<lambda>c. mapto hs (stamp c) a) (map_of d k')
       else map_of d k')"
  proof
    fix k'
    show "map_of d' k' =
      (if k' \<in> set (k # ks) then map_option (\<lambda>c. mapto hs (stamp c) a) (map_of d k')
       else map_of d k')"
    proof (cases "k' = k")
      case True
      have "map_of d' k = map_of ?d1 k" using d3 [rule_format, of k] kn by simp
      then show ?thesis using True c by (simp add: update_conv')
    next
      case False
      have "map_of ?d1 k' = map_of d k'" using False by (simp add: update_conv')
      then show ?thesis using d3 [rule_format, of k'] False by simp
    qed
  qed
  have "map_from_hs_loop hs a (k # ks) d = Inr d' \<and> map fst d' = map fst d \<and>
      (\<forall>k'. map_of d' k' =
      (if k' \<in> set (k # ks) then map_option (\<lambda>c. mapto hs (stamp c) a) (map_of d k')
       else map_of d k'))"
    by (intro conjI r1 r2 r3)
  then show ?case ..
qed

text \<open>The order in which the loop takes the keys does not change what it computes.\<close>

lemma map_from_hs_loop_order:
  assumes "set ks \<subseteq> fst ` set d" and "distinct ks" and "distinct ks'" and "set ks' = set ks"
  shows "\<exists>d1 d2. map_from_hs_loop hs a ks d = Inr d1 \<and> map_from_hs_loop hs a ks' d = Inr d2
           \<and> map fst d1 = map fst d2 \<and> map_of d1 = map_of d2"
proof -
  from map_from_hs_loop_ok [OF assms(1) assms(2), of hs a] obtain d1 where a1:
    "map_from_hs_loop hs a ks d = Inr d1 \<and> map fst d1 = map fst d \<and>
        (\<forall>k. map_of d1 k = (if k \<in> set ks then map_option (\<lambda>c. mapto hs (stamp c) a) (map_of d k)
                             else map_of d k))" ..
  have sub': "set ks' \<subseteq> fst ` set d" unfolding assms(4) by (rule assms(1))
  from map_from_hs_loop_ok [OF sub' assms(3), of hs a] obtain d2 where a2:
    "map_from_hs_loop hs a ks' d = Inr d2 \<and> map fst d2 = map fst d \<and>
        (\<forall>k. map_of d2 k = (if k \<in> set ks' then map_option (\<lambda>c. mapto hs (stamp c) a) (map_of d k)
                             else map_of d k))" ..
  have "map_of d1 k = map_of d2 k" for k
    using a1 [THEN conjunct2, THEN conjunct2, rule_format, of k]
      a2 [THEN conjunct2, THEN conjunct2, rule_format, of k]
    unfolding assms(4) by simp
  then have e: "map_of d1 = map_of d2" by (rule ext)
  have k: "map fst d1 = map fst d2"
    using a1 [THEN conjunct2, THEN conjunct1] a2 [THEN conjunct2, THEN conjunct1] by simp
  have "map_from_hs_loop hs a ks d = Inr d1 \<and> map_from_hs_loop hs a ks' d = Inr d2
           \<and> map fst d1 = map fst d2 \<and> map_of d1 = map_of d2"
    using a1 [THEN conjunct1] a2 [THEN conjunct1] k e by (intro conjI)
  then show ?thesis by (intro exI)
qed

text \<open>
  Claim C5. For a series with at least one chip, \<^verbatim>\<open>get_hs_key\<close> is the largest key.
  \<^verbatim>\<open>process\<close> succeeds and keeps the keys; the chip under the largest key gets exactly
  the calls \<^verbatim>\<open>stamp\<close> and \<^verbatim>\<open>findChambers\<close>, and every other chip gets exactly
  \<^verbatim>\<open>stamp\<close> followed by one mapping from the high standard with the given feature
  type. No chip changes otherwise, and no other field of the series changes.
\<close>

theorem StandardSeries_process_maps:
  assumes "chips s = Some d" and "d \<noteq> []"
  shows "get_hs_key s = Inr (Max (fst ` set d))
    \<and> (\<exists>d' hs. StandardSeries_process s ft = Inr (s\<lparr>chips := Some d'\<rparr>)
          \<and> map fst d' = map fst d
          \<and> map_of d (Max (fst ` set d)) = Some hs
          \<and> (\<forall>k c. map_of d k = Some c \<longrightarrow>
                map_of d' k = Some (c\<lparr>calls := calls c @
                  (if k = Max (fst ` set d) then [Stamp, FindChambers]
                   else [Stamp, MapTo (data_ref hs) (Some ft)])\<rparr>)))"
proof -
  let ?hk = "Max (fst ` set d)"
  have keys_ne: "map fst d \<noteq> []" using assms(2) by simp
  have mx: "py_max (map fst d) = Inr ?hk"
    using py_max_Max [OF keys_ne] by simp
  have hk: "get_hs_key s = Inr ?hk"
    using assms(1) mx by (simp add: get_hs_key_def)
  have ne: "fst ` set d \<noteq> {}" using assms(2) by simp
  have hin: "?hk \<in> fst ` set d"
    by (rule Max_in) (simp_all add: assms(2))
  from key_has_value [OF hin] obtain hs where hs: "map_of d ?hk = Some hs" ..
  have ghs: "get_highstandard s = Inr hs"
    using hk hs assms(1) by (simp add: get_highstandard_def getitem_def)
  let ?hs' = "findChambers (stamp hs)"
  let ?d1 = "AList.update ?hk ?hs' d"
  let ?s1 = "s\<lparr>chips := Some ?d1\<rparr>"
  have keys1: "map fst ?d1 = map fst d"
    using hin by (rule update_same_keys)
  have img1: "fst ` set ?d1 = fst ` set d"
    using keys1 by (rule same_keys_image)
  have hk1: "get_hs_key ?s1 = Inr ?hk"
    using mx by (simp add: get_hs_key_def keys1)
  have ghs1: "get_highstandard ?s1 = Inr ?hs'"
    by (simp add: get_highstandard_def hk1 getitem_def update_conv')
  let ?ks = "filter (\<lambda>k. k \<notin> set [?hk]) (remdups (map fst ?d1))"
  have p1: "set ?ks \<subseteq> fst ` set ?d1"
  proof
    fix x assume "x \<in> set ?ks"
    then have "x \<in> set (map fst ?d1)" by simp
    then show "x \<in> fst ` set ?d1" by simp
  qed
  have p2: "distinct ?ks" by simp
  from map_from_hs_loop_ok [OF p1 p2, of ?hs' "Some ft"] obtain d' where dd:
    "map_from_hs_loop ?hs' (Some ft) ?ks ?d1 = Inr d' \<and> map fst d' = map fst ?d1 \<and>
     (\<forall>k. map_of d' k = (if k \<in> set ?ks
        then map_option (\<lambda>c. mapto ?hs' (stamp c) (Some ft)) (map_of ?d1 k)
        else map_of ?d1 k))" ..
  from dd have d1: "map_from_hs_loop ?hs' (Some ft) ?ks ?d1 = Inr d'" by (rule conjunct1)
  from dd have d2: "map fst d' = map fst ?d1" by (rule conjunct2 [THEN conjunct1])
  from dd have d3: "\<forall>k. map_of d' k = (if k \<in> set ?ks
        then map_option (\<lambda>c. mapto ?hs' (stamp c) (Some ft)) (map_of ?d1 k)
        else map_of ?d1 k)" by (rule conjunct2 [THEN conjunct2])
  have mf: "map_from_hs ?s1 (Some ft) = Inr (s\<lparr>chips := Some d'\<rparr>)"
    unfolding map_from_hs_def hk1 ghs1 using d1 by simp
  have proc: "StandardSeries_process s ft = Inr (s\<lparr>chips := Some d'\<rparr>)"
    unfolding StandardSeries_process_def ghs hk using mf assms(1) by simp
  have mem: "(k \<in> set ?ks) = (k \<in> fst ` set d \<and> k \<noteq> ?hk)" for k
    unfolding keys1 by simp
  have d3': "map_of d' k = (if k \<in> fst ` set d \<and> k \<noteq> ?hk
        then map_option (\<lambda>c. mapto ?hs' (stamp c) (Some ft)) (map_of ?d1 k)
        else map_of ?d1 k)" for k
    using d3 [rule_format, of k] unfolding mem by assumption
  have each: "\<forall>k c. map_of d k = Some c \<longrightarrow>
      map_of d' k = Some (c\<lparr>calls := calls c @
        (if k = ?hk then [Stamp, FindChambers] else [Stamp, MapTo (data_ref hs) (Some ft)])\<rparr>)"
  proof (intro allI impI)
    fix k c assume kc: "map_of d k = Some c"
    have kin: "k \<in> fst ` set d" using kc by (rule value_has_key)
    show "map_of d' k = Some (c\<lparr>calls := calls c @
        (if k = ?hk then [Stamp, FindChambers] else [Stamp, MapTo (data_ref hs) (Some ft)])\<rparr>)"
    proof (cases "k = ?hk")
      case True
      have "map_of d' k = map_of ?d1 k" unfolding d3' using True by simp
      also have "\<dots> = Some ?hs'" using True by (simp add: update_conv')
      finally show ?thesis
        using True hs kc by (simp add: findChambers_def stamp_def)
    next
      case False
      have "map_of d' k = map_option (\<lambda>c. mapto ?hs' (stamp c) (Some ft)) (map_of ?d1 k)"
        unfolding d3' using False kin by simp
      also have "map_of ?d1 k = Some c" using False kc by (simp add: update_conv')
      finally show ?thesis
        using False by (simp add: mapto_def findChambers_def stamp_def)
    qed
  qed
  have "StandardSeries_process s ft = Inr (s\<lparr>chips := Some d'\<rparr>)
          \<and> map fst d' = map fst d
          \<and> map_of d ?hk = Some hs
          \<and> (\<forall>k c. map_of d k = Some c \<longrightarrow>
                map_of d' k = Some (c\<lparr>calls := calls c @
                  (if k = ?hk then [Stamp, FindChambers]
                   else [Stamp, MapTo (data_ref hs) (Some ft)])\<rparr>))"
    using proc d2 keys1 hs each by (intro conjI) simp_all
  then have "\<exists>d' hs. StandardSeries_process s ft = Inr (s\<lparr>chips := Some d'\<rparr>)
          \<and> map fst d' = map fst d
          \<and> map_of d ?hk = Some hs
          \<and> (\<forall>k c. map_of d k = Some c \<longrightarrow>
                map_of d' k = Some (c\<lparr>calls := calls c @
                  (if k = ?hk then [Stamp, FindChambers]
                   else [Stamp, MapTo (data_ref hs) (Some ft)])\<rparr>))"
    by (intro exI)
  with hk show ?thesis by (rule conjI)
qed

theorem StandardSeries_process_maps_witness:
  "chips demo_loaded_series = Some demo_chips \<and> demo_chips \<noteq> []
   \<and> get_hs_key demo_loaded_series = Inr 5
   \<and> StandardSeries_process demo_loaded_series ''chamber''
       = Inr (demo_loaded_series\<lparr>chips := Some
           [(5, (demo_chip ''/kin/StitchedImg_5.tif'')\<lparr>calls := [Stamp, FindChambers]\<rparr>),
            (2, (demo_chip ''/kin/StitchedImg_2.tif'')
                  \<lparr>calls := [Stamp, MapTo ''/kin/StitchedImg_5.tif'' (Some ''chamber'')]\<rparr>)]\<rparr>)"
  using StandardSeries_process_maps [of demo_loaded_series demo_chips "''chamber''"]
  by (simp add: demo_loaded_series_def demo_chips_def demo_series_def demo_chip_def
      ChipImage_def StandardSeries_process_def get_highstandard_def get_hs_key_def getitem_def
      map_from_hs_def stamp_def findChambers_def mapto_def)

section \<open>Loading kinetics into an AssaySeries\<close>

text \<open>
  The error for mismatched lengths is raised by \<^verbatim>\<open>load_kin\<close> itself and by nothing it
  calls: parsing an index gives a different message, and a missing assay is a
  \<^verbatim>\<open>KeyError\<close>.
\<close>

lemma py_int_error:
  "py_int s \<noteq> Inl (ValueError length_mismatch_message)"
  by (auto simp: py_int_def unsigned_int_def length_mismatch_message_def
      split: list.splits option.splits sum.splits if_splits)

lemma build_record_error:
  "build_record acc ps \<noteq> Inl (ValueError length_mismatch_message)"
proof (induction ps arbitrary: acc)
  case Nil
  show ?case by simp
next
  case (Cons p ps)
  show ?case
  proof (cases "py_int (last_field (path_stem p))")
    case (Inl e)
    then show ?thesis using py_int_error [of "last_field (path_stem p)"] by simp
  next
    case (Inr k)
    then show ?thesis using Cons.IH by simp
  qed
qed

lemma new_timecourse_error:
  "new_timecourse fs dev desc p chan expo \<noteq> Inl (ValueError length_mismatch_message)"
proof -
  let ?ps = "map (os_path_join (path_parent p))
               (filter keep_image (path_glob fs p ''*StitchedImg*.tif''))"
  show ?thesis
    using build_record_error [of "[]" ?ps]
    by (cases "build_record [] ?ps")
       (simp_all add: new_timecourse_def Timecourse_init_def load_files_def)
qed

lemma load_kin_loop_error:
  "load_kin_loop fs dev refs asy \<noteq> Inl (ValueError length_mismatch_message)"
proof (induction refs arbitrary: asy)
  case Nil
  show ?case by simp
next
  case (Cons r refs)
  obtain desc p c e where r: "r = (desc, p, c, e)" by (rule prod_cases4)
  show ?case
  proof (cases "new_timecourse fs dev desc p c e")
    case (Inl err)
    then show ?thesis using new_timecourse_error [of fs dev desc p c e] by (simp add: r)
  next
    case (Inr t)
    show ?thesis
    proof (cases "map_of asy desc")
      case None
      then show ?thesis using Inr by (simp add: r)
    next
      case (Some a0)
      then show ?thesis using Inr Cons.IH by (simp add: r)
    qed
  qed
qed

lemma assay_key_has_value: "k \<in> fst ` set asy \<Longrightarrow> \<exists>a. map_of asy k = Some a"
  by (cases "map_of asy k") (simp_all add: map_of_eq_None_iff)

lemma assay_value_has_key: "map_of asy k = Some a \<Longrightarrow> k \<in> fst ` set asy"
  using map_of_eq_None_iff [of asy k] by auto

lemma load_kin_loop_ok:
  "distinct (map fst refs) \<Longrightarrow> set (map fst refs) \<subseteq> fst ` set asy \<Longrightarrow>
   (\<forall>r \<in> set refs. new_timecourse fs dev (fst r) (fst (snd r)) (fst (snd (snd r)))
        (snd (snd (snd r))) = Inr (tc (fst r))) \<Longrightarrow>
   \<exists>asy'. load_kin_loop fs dev refs asy = Inr asy' \<and> map fst asy' = map fst asy \<and>
        (\<forall>k. map_of asy' k = (if k \<in> set (map fst refs)
                                then map_option (\<lambda>a. a\<lparr>series := Some (tc k)\<rparr>) (map_of asy k)
                                else map_of asy k))"
proof (induction refs arbitrary: asy)
  case Nil
  then show ?case by simp
next
  case (Cons r refs)
  obtain desc p c e where r: "r = (desc, p, c, e)" by (rule prod_cases4)
  from Cons.prems(2) have kd: "desc \<in> fst ` set asy" by (simp add: r)
  from assay_key_has_value [OF kd] obtain a0 where a0: "map_of asy desc = Some a0" ..
  have nt: "new_timecourse fs dev desc p c e = Inr (tc desc)"
    using Cons.prems(3) by (simp add: r)
  let ?asy1 = "AList.update desc (a0\<lparr>series := Some (tc desc)\<rparr>) asy"
  have keys1: "map fst ?asy1 = map fst asy"
    using kd by (simp add: update_keys)
  have img1: "fst ` set ?asy1 = fst ` set asy"
  proof -
    have "set (map fst ?asy1) = set (map fst asy)" by (simp only: keys1)
    then show ?thesis by (simp only: set_map)
  qed
  have p1: "distinct (map fst refs)" using Cons.prems(1) by simp
  have p2: "set (map fst refs) \<subseteq> fst ` set ?asy1"
    unfolding img1 using Cons.prems(2) by simp
  have p3: "\<forall>r \<in> set refs. new_timecourse fs dev (fst r) (fst (snd r)) (fst (snd (snd r)))
        (snd (snd (snd r))) = Inr (tc (fst r))"
    using Cons.prems(3) by simp
  from Cons.IH [OF p1 p2 p3] obtain asy' where dd:
    "load_kin_loop fs dev refs ?asy1 = Inr asy' \<and> map fst asy' = map fst ?asy1 \<and>
     (\<forall>k. map_of asy' k = (if k \<in> set (map fst refs)
                             then map_option (\<lambda>a. a\<lparr>series := Some (tc k)\<rparr>) (map_of ?asy1 k)
                             else map_of ?asy1 k))" ..
  from dd have d1: "load_kin_loop fs dev refs ?asy1 = Inr asy'" by (rule conjunct1)
  from dd have d2: "map fst asy' = map fst ?asy1" by (rule conjunct2 [THEN conjunct1])
  from dd have d3: "\<forall>k. map_of asy' k = (if k \<in> set (map fst refs)
                             then map_option (\<lambda>a. a\<lparr>series := Some (tc k)\<rparr>) (map_of ?asy1 k)
                             else map_of ?asy1 k)" by (rule conjunct2 [THEN conjunct2])
  have r1: "load_kin_loop fs dev (r # refs) asy = Inr asy'"
    using nt a0 d1 by (simp add: r)
  have r2: "map fst asy' = map fst asy"
    using d2 keys1 by simp
  have dn: "desc \<notin> set (map fst refs)" using Cons.prems(1) by (simp add: r)
  have r3: "\<forall>k. map_of asy' k = (if k \<in> set (map fst (r # refs))
                                then map_option (\<lambda>a. a\<lparr>series := Some (tc k)\<rparr>) (map_of asy k)
                                else map_of asy k)"
  proof
    fix k
    show "map_of asy' k = (if k \<in> set (map fst (r # refs))
                                then map_option (\<lambda>a. a\<lparr>series := Some (tc k)\<rparr>) (map_of asy k)
                                else map_of asy k)"
    proof (cases "k = desc")
      case True
      have "map_of asy' desc = map_of ?asy1 desc" using d3 [rule_format, of desc] dn by simp
      then show ?thesis using True a0 by (simp add: update_conv' r)
    next
      case False
      have "map_of ?asy1 k = map_of asy k" using False by (simp add: update_conv')
      then show ?thesis using d3 [rule_format, of k] False by (simp add: r)
    qed
  qed
  have "load_kin_loop fs dev (r # refs) asy = Inr asy' \<and> map fst asy' = map fst asy \<and>
        (\<forall>k. map_of asy' k = (if k \<in> set (map fst (r # refs))
                                then map_option (\<lambda>a. a\<lparr>series := Some (tc k)\<rparr>) (map_of asy k)
                                else map_of asy k))"
    by (intro conjI r1 r2 r3)
  then show ?case ..
qed

lemma zip4_nth:
  "length ws = n \<Longrightarrow> length xs = n \<Longrightarrow>
   zip4 ws xs (replicate n y) (replicate n z) = map (\<lambda>i. (ws ! i, xs ! i, y, z)) [0..<n]"
  by (simp add: zip4_def list_eq_iff_nth_eq)

lemma distinct_filter_one:
  "distinct xs \<Longrightarrow> d \<in> set xs \<Longrightarrow> length (filter (\<lambda>x. x = d) xs) = 1"
  by (induction xs) (auto simp: filter_empty_conv)

text \<open>
  Claim C6. \<^verbatim>\<open>load_kin\<close> raises its length error exactly when the number of
  descriptions differs from the number of assays. When the descriptions are the assays'
  keys, each once, the paths are as many, and the timecourse of the \<^verbatim>\<open>i\<close>-th path
  loads (as \<^verbatim>\<open>tc\<close> of the \<^verbatim>\<open>i\<close>-th description), the call succeeds, keeps the assays'
  keys and order, stores for every assay the timecourse loaded from the path at the
  position of its description, and the loop meets every assay exactly once.
\<close>

theorem load_kin_assigns:
  "((load_kin fs a descriptions paths chan expo = Inl (ValueError length_mismatch_message))
      = (length descriptions \<noteq> length (assays a)))
   \<and> (length descriptions = length (assays a) \<and> length paths = length descriptions
        \<and> distinct descriptions \<and> set descriptions = fst ` set (assays a)
        \<and> (\<forall>i < length descriptions.
               new_timecourse fs (device a) (descriptions ! i) (paths ! i) chan expo
                 = Inr (tc (descriptions ! i)))
      \<longrightarrow> (\<exists>asy'. load_kin fs a descriptions paths chan expo = Inr (a\<lparr>assays := asy'\<rparr>)
              \<and> map fst asy' = map fst (assays a)
              \<and> (\<forall>d a0. map_of (assays a) d = Some a0
                     \<longrightarrow> map_of asy' d = Some (a0\<lparr>series := Some (tc d)\<rparr>))
              \<and> (\<forall>d \<in> fst ` set (assays a).
                    length (filter (\<lambda>r. fst r = d) (kin_refs a descriptions paths chan expo))
                      = 1)))"
proof (intro conjI impI)
  show "(load_kin fs a descriptions paths chan expo = Inl (ValueError length_mismatch_message))
      = (length descriptions \<noteq> length (assays a))"
  proof (cases "length descriptions = length (assays a)")
    case False
    then show ?thesis by (simp add: load_kin_def)
  next
    case True
    let ?refs = "kin_refs a descriptions paths chan expo"
    have "load_kin fs a descriptions paths chan expo
            \<noteq> Inl (ValueError length_mismatch_message)"
      using load_kin_loop_error [of fs "device a" ?refs "assays a"] True
      by (cases "load_kin_loop fs (device a) ?refs (assays a)") (simp_all add: load_kin_def)
    then show ?thesis using True by simp
  qed
next
  assume h: "length descriptions = length (assays a) \<and> length paths = length descriptions
        \<and> distinct descriptions \<and> set descriptions = fst ` set (assays a)
        \<and> (\<forall>i < length descriptions.
               new_timecourse fs (device a) (descriptions ! i) (paths ! i) chan expo
                 = Inr (tc (descriptions ! i)))"
  let ?n = "length (assays a)"
  let ?refs = "kin_refs a descriptions paths chan expo"
  have l1: "length descriptions = ?n" and l2: "length paths = ?n"
    and dis: "distinct descriptions" and keys: "set descriptions = fst ` set (assays a)"
    and loads: "\<forall>i < length descriptions.
               new_timecourse fs (device a) (descriptions ! i) (paths ! i) chan expo
                 = Inr (tc (descriptions ! i))"
    using h by simp_all
  have refs: "?refs = map (\<lambda>i. (descriptions ! i, paths ! i, chan, expo)) [0..<?n]"
    unfolding kin_refs_def Let_def using l1 l2 by (rule zip4_nth)
  have fsts: "map fst ?refs = descriptions"
  proof -
    have "map fst (map (\<lambda>i. (descriptions ! i, paths ! i, chan, expo)) [0..<length descriptions])
            = map (nth descriptions) [0..<length descriptions]"
      by (simp add: comp_def)
    also have "\<dots> = descriptions" by (rule map_nth)
    finally show ?thesis unfolding refs l1 [symmetric] .
  qed
  have q1: "distinct (map fst ?refs)" unfolding fsts by (rule dis)
  have q2: "set (map fst ?refs) \<subseteq> fst ` set (assays a)" unfolding fsts using keys by simp
  have q3: "\<forall>r \<in> set ?refs. new_timecourse fs (device a) (fst r) (fst (snd r))
        (fst (snd (snd r))) (snd (snd (snd r))) = Inr (tc (fst r))"
    unfolding refs using loads l1 by simp
  from load_kin_loop_ok [OF q1 q2 q3] obtain asy' where dd:
    "load_kin_loop fs (device a) ?refs (assays a) = Inr asy' \<and>
     map fst asy' = map fst (assays a) \<and>
     (\<forall>k. map_of asy' k = (if k \<in> set (map fst ?refs)
          then map_option (\<lambda>a. a\<lparr>series := Some (tc k)\<rparr>) (map_of (assays a) k)
          else map_of (assays a) k))" ..
  from dd have d1: "load_kin_loop fs (device a) ?refs (assays a) = Inr asy'"
    by (rule conjunct1)
  from dd have d2: "map fst asy' = map fst (assays a)" by (rule conjunct2 [THEN conjunct1])
  from dd have d3: "\<forall>k. map_of asy' k = (if k \<in> set (map fst ?refs)
          then map_option (\<lambda>a. a\<lparr>series := Some (tc k)\<rparr>) (map_of (assays a) k)
          else map_of (assays a) k)" by (rule conjunct2 [THEN conjunct2])
  have r1: "load_kin fs a descriptions paths chan expo = Inr (a\<lparr>assays := asy'\<rparr>)"
    using d1 l1 by (simp add: load_kin_def)
  have r3: "\<forall>d a0. map_of (assays a) d = Some a0
                     \<longrightarrow> map_of asy' d = Some (a0\<lparr>series := Some (tc d)\<rparr>)"
  proof (intro allI impI)
    fix d a0 assume m: "map_of (assays a) d = Some a0"
    have "d \<in> fst ` set (assays a)" using m by (rule assay_value_has_key)
    then have "d \<in> set (map fst ?refs)" unfolding fsts keys .
    then show "map_of asy' d = Some (a0\<lparr>series := Some (tc d)\<rparr>)"
      using d3 [rule_format, of d] m by simp
  qed
  have r4: "\<forall>d \<in> fst ` set (assays a).
      length (filter (\<lambda>r. fst r = d) ?refs) = 1"
  proof
    fix d assume "d \<in> fst ` set (assays a)"
    then have din: "d \<in> set descriptions" unfolding keys .
    have "length (filter (\<lambda>r. fst r = d) ?refs)
            = length (filter (\<lambda>x. x = d) (map fst ?refs))"
      by (simp add: filter_map comp_def)
    also have "\<dots> = 1" unfolding fsts using dis din by (rule distinct_filter_one)
    finally show "length (filter (\<lambda>r. fst r = d) ?refs) = 1" .
  qed
  have "load_kin fs a descriptions paths chan expo = Inr (a\<lparr>assays := asy'\<rparr>)
              \<and> map fst asy' = map fst (assays a)
              \<and> (\<forall>d a0. map_of (assays a) d = Some a0
                     \<longrightarrow> map_of asy' d = Some (a0\<lparr>series := Some (tc d)\<rparr>))
              \<and> (\<forall>d \<in> fst ` set (assays a).
                    length (filter (\<lambda>r. fst r = d) (kin_refs a descriptions paths chan expo))
                      = 1)"
    by (intro conjI r1 d2 r3 r4)
  then show "\<exists>asy'. load_kin fs a descriptions paths chan expo = Inr (a\<lparr>assays := asy'\<rparr>)
              \<and> map fst asy' = map fst (assays a)
              \<and> (\<forall>d a0. map_of (assays a) d = Some a0
                     \<longrightarrow> map_of asy' d = Some (a0\<lparr>series := Some (tc d)\<rparr>))
              \<and> (\<forall>d \<in> fst ` set (assays a).
                    length (filter (\<lambda>r. fst r = d) (kin_refs a descriptions paths chan expo))
                      = 1)" ..
qed

lemma demo_new_timecourse:
  "new_timecourse demo_fs_kin demo_device ''a'' ''/kin/a'' ''egfp'' 500 = Inr (demo_timecourse ''a'')"
  "new_timecourse demo_fs_kin demo_device ''b'' ''/kin/b'' ''egfp'' 500 = Inr (demo_timecourse ''b'')"
  by (simp_all add: demo_timecourse_def new_timecourse_def Timecourse_init_def load_files_def
      demo_fs_kin_def path_defs)

theorem load_kin_assigns_witness:
  "load_kin demo_fs_kin demo_assay_series [''b''] [''/kin/b''] ''egfp'' 500
     = Inl (ValueError length_mismatch_message)
   \<and> load_kin demo_fs_kin demo_assay_series [''b'', ''a''] [''/kin/b'', ''/kin/a''] ''egfp'' 500
     = Inr (demo_assay_series\<lparr>assays :=
         [(''a'', (TurnoverAssay_init demo_device ''a'')\<lparr>series := Some (demo_timecourse ''a'')\<rparr>),
          (''b'', (TurnoverAssay_init demo_device ''b'')\<lparr>series := Some (demo_timecourse ''b'')\<rparr>)]\<rparr>)
   \<and> chip_keys (demo_timecourse ''a'') = {10}
   \<and> chip_keys (demo_timecourse ''b'') = {20, 30}"
proof -
  have m: "load_kin demo_fs_kin demo_assay_series [''b''] [''/kin/b''] ''egfp'' 500
     = Inl (ValueError length_mismatch_message)"
    using load_kin_assigns [of demo_fs_kin demo_assay_series "[''b'']" "[''/kin/b'']" "''egfp''" 500]
    by (simp add: demo_assay_series_def AssaySeries_init_def)
  have pre: "length [''b'', ''a''] = length (assays demo_assay_series)
      \<and> length [''/kin/b'', ''/kin/a''] = length [''b'', ''a'']
      \<and> distinct [''b'', ''a''] \<and> set [''b'', ''a''] = fst ` set (assays demo_assay_series)
      \<and> (\<forall>i < length [''b'', ''a''].
            new_timecourse demo_fs_kin (device demo_assay_series) ([''b'', ''a''] ! i)
              ([''/kin/b'', ''/kin/a''] ! i) ''egfp'' 500
              = Inr (demo_timecourse ([''b'', ''a''] ! i)))"
    by (auto simp: demo_assay_series_def AssaySeries_init_def demo_new_timecourse less_Suc_eq)
  from load_kin_assigns [of demo_fs_kin demo_assay_series "[''b'', ''a'']"
      "[''/kin/b'', ''/kin/a'']" "''egfp''" 500 demo_timecourse, THEN conjunct2, rule_format, OF pre]
  obtain asy' where r:
    "load_kin demo_fs_kin demo_assay_series [''b'', ''a''] [''/kin/b'', ''/kin/a''] ''egfp'' 500
       = Inr (demo_assay_series\<lparr>assays := asy'\<rparr>)" by auto
  have e: "load_kin demo_fs_kin demo_assay_series [''b'', ''a''] [''/kin/b'', ''/kin/a''] ''egfp'' 500
     = Inr (demo_assay_series\<lparr>assays :=
         [(''a'', (TurnoverAssay_init demo_device ''a'')\<lparr>series := Some (demo_timecourse ''a'')\<rparr>),
          (''b'', (TurnoverAssay_init demo_device ''b'')\<lparr>series := Some (demo_timecourse ''b'')\<rparr>)]\<rparr>)"
    by (simp add: load_kin_def kin_refs_def zip4_def demo_assay_series_def AssaySeries_init_def
        demo_new_timecourse)
  have k: "chip_keys (demo_timecourse ''a'') = {10}" "chip_keys (demo_timecourse ''b'') = {20, 30}"
    by (auto simp: demo_timecourse_def new_timecourse_def Timecourse_init_def load_files_def
        demo_fs_kin_def path_defs chip_keys_def)
  from m e k r show ?thesis by simp
qed

section \<open>Loading quantifications into an AssaySeries\<close>

lemma load_quants_loop_ok:
  "distinct (map fst refs) \<Longrightarrow> set (map fst refs) \<subseteq> fst ` set asy \<Longrightarrow>
   (\<forall>r \<in> set refs. new_quant dev (fst (snd r)) (fst (snd (snd r))) (snd (snd (snd r)))
        = qf (fst r)) \<Longrightarrow>
   \<exists>asy'. load_quants_loop dev refs asy = Inr asy' \<and> map fst asy' = map fst asy \<and>
        (\<forall>k. map_of asy' k = (if k \<in> set (map fst refs)
                                then map_option (\<lambda>a. add_quant a (qf k)) (map_of asy k)
                                else map_of asy k))"
proof (induction refs arbitrary: asy)
  case Nil
  then show ?case by simp
next
  case (Cons r refs)
  obtain desc p c e where r: "r = (desc, p, c, e)" by (rule prod_cases4)
  from Cons.prems(2) have kd: "desc \<in> fst ` set asy" by (simp add: r)
  from assay_key_has_value [OF kd] obtain a0 where a0: "map_of asy desc = Some a0" ..
  have nq: "new_quant dev p c e = qf desc"
    using Cons.prems(3) by (simp add: r)
  let ?asy1 = "AList.update desc (add_quant a0 (qf desc)) asy"
  have keys1: "map fst ?asy1 = map fst asy"
    using kd by (simp add: update_keys)
  have img1: "fst ` set ?asy1 = fst ` set asy"
  proof -
    have "set (map fst ?asy1) = set (map fst asy)" by (simp only: keys1)
    then show ?thesis by (simp only: set_map)
  qed
  have p1: "distinct (map fst refs)" using Cons.prems(1) by simp
  have p2: "set (map fst refs) \<subseteq> fst ` set ?asy1"
    unfolding img1 using Cons.prems(2) by simp
  have p3: "\<forall>r \<in> set refs. new_quant dev (fst (snd r)) (fst (snd (snd r)))
        (snd (snd (snd r))) = qf (fst r)"
    using Cons.prems(3) by simp
  from Cons.IH [OF p1 p2 p3] obtain asy' where dd:
    "load_quants_loop dev refs ?asy1 = Inr asy' \<and> map fst asy' = map fst ?asy1 \<and>
     (\<forall>k. map_of asy' k = (if k \<in> set (map fst refs)
                             then map_option (\<lambda>a. add_quant a (qf k)) (map_of ?asy1 k)
                             else map_of ?asy1 k))" ..
  from dd have d1: "load_quants_loop dev refs ?asy1 = Inr asy'" by (rule conjunct1)
  from dd have d2: "map fst asy' = map fst ?asy1" by (rule conjunct2 [THEN conjunct1])
  from dd have d3: "\<forall>k. map_of asy' k = (if k \<in> set (map fst refs)
                             then map_option (\<lambda>a. add_quant a (qf k)) (map_of ?asy1 k)
                             else map_of ?asy1 k)" by (rule conjunct2 [THEN conjunct2])
  have r1: "load_quants_loop dev (r # refs) asy = Inr asy'"
    using nq a0 d1 by (simp add: r)
  have r2: "map fst asy' = map fst asy"
    using d2 keys1 by simp
  have dn: "desc \<notin> set (map fst refs)" using Cons.prems(1) by (simp add: r)
  have r3: "\<forall>k. map_of asy' k = (if k \<in> set (map fst (r # refs))
                                then map_option (\<lambda>a. add_quant a (qf k)) (map_of asy k)
                                else map_of asy k)"
  proof
    fix k
    show "map_of asy' k = (if k \<in> set (map fst (r # refs))
                                then map_option (\<lambda>a. add_quant a (qf k)) (map_of asy k)
                                else map_of asy k)"
    proof (cases "k = desc")
      case True
      have "map_of asy' desc = map_of ?asy1 desc" using d3 [rule_format, of desc] dn by simp
      then show ?thesis using True a0 by (simp add: update_conv' r)
    next
      case False
      have "map_of ?asy1 k = map_of asy k" using False by (simp add: update_conv')
      then show ?thesis using d3 [rule_format, of k] False by (simp add: r)
    qed
  qed
  have "load_quants_loop dev (r # refs) asy = Inr asy' \<and> map fst asy' = map fst asy \<and>
        (\<forall>k. map_of asy' k = (if k \<in> set (map fst (r # refs))
                                then map_option (\<lambda>a. add_quant a (qf k)) (map_of asy k)
                                else map_of asy k))"
    by (intro conjI r1 r2 r3)
  then show ?case ..
qed

lemma zip4_nth_le:
  "length ws = m \<Longrightarrow> length xs = m \<Longrightarrow> m \<le> n \<Longrightarrow>
   zip4 ws xs (replicate n y) (replicate n z) = map (\<lambda>i. (ws ! i, xs ! i, y, z)) [0..<m]"
  by (simp add: zip4_def list_eq_iff_nth_eq)

lemma concat_replicate_single: "concat (replicate n [p]) = replicate n p"
  by (induction n) simp_all

lemma fst_refs:
  "length ws = m \<Longrightarrow> map fst (map (\<lambda>i. (ws ! i, f i)) [0..<m]) = ws"
proof -
  assume l: "length ws = m"
  have "map fst (map (\<lambda>i. (ws ! i, f i)) [0..<length ws]) = map (nth ws) [0..<length ws]"
    by (simp add: comp_def)
  also have "\<dots> = ws" by (rule map_nth)
  finally show ?thesis unfolding l .
qed

lemma keys_bound: "distinct ds \<Longrightarrow> set ds \<subseteq> fst ` set asy \<Longrightarrow> length ds \<le> length asy"
proof -
  assume d: "distinct ds" and s: "set ds \<subseteq> fst ` set asy"
  have "length ds = card (set ds)" using d by (simp add: distinct_card)
  also have "\<dots> \<le> card (fst ` set asy)" using s by (intro card_mono) simp_all
  also have "\<dots> \<le> card (set asy)" by (rule card_image_le) simp
  also have "\<dots> \<le> length asy" by (rule card_length)
  finally show ?thesis .
qed

text \<open>
  What \<^verbatim>\<open>load_quants\<close> does, in terms of the quant one round of the loop builds.
\<close>

lemma load_quants_by_new_quant:
  "(length descriptions \<noteq> length paths \<longrightarrow>
      load_quants a descriptions paths chan expo
        = Inl (ValueError ''Descriptions and paths must be of same length''))
   \<and> (descriptions = [d0] \<and> paths = [p0] \<and> distinct (map fst (assays a)) \<longrightarrow>
        (\<exists>asy'. load_quants a descriptions paths chan expo = Inr (a\<lparr>assays := asy'\<rparr>)
           \<and> map fst asy' = map fst (assays a)
           \<and> (\<forall>k a0. map_of (assays a) k = Some a0 \<longrightarrow>
                 map_of asy' k
                   = Some (a0\<lparr>quants := quants a0 @ [new_quant (device a) p0 chan expo]\<rparr>))))
   \<and> (length descriptions = length paths \<and> length descriptions \<noteq> 1
        \<and> distinct descriptions \<and> set descriptions \<subseteq> fst ` set (assays a) \<longrightarrow>
        (\<exists>asy'. load_quants a descriptions paths chan expo = Inr (a\<lparr>assays := asy'\<rparr>)
           \<and> map fst asy' = map fst (assays a)
           \<and> (\<forall>i a0. i < length descriptions \<and> map_of (assays a) (descriptions ! i) = Some a0 \<longrightarrow>
                 map_of asy' (descriptions ! i)
                   = Some (a0\<lparr>quants := quants a0 @ [new_quant (device a) (paths ! i) chan expo]\<rparr>))
           \<and> (\<forall>k. k \<notin> set descriptions \<longrightarrow> map_of asy' k = map_of (assays a) k)))"
proof (intro conjI impI)
  assume "length descriptions \<noteq> length paths"
  then show "load_quants a descriptions paths chan expo
        = Inl (ValueError ''Descriptions and paths must be of same length'')"
    by (simp add: load_quants_def)
next
  assume h: "descriptions = [d0] \<and> paths = [p0] \<and> distinct (map fst (assays a))"
  let ?n = "length (assays a)"
  let ?ks = "map fst (assays a)"
  let ?q = "new_quant (device a) p0 chan expo"
  let ?refs = "bq_refs a descriptions paths chan expo"
  have lk: "length ?ks = ?n" by simp
  have lp: "length (replicate ?n p0) = ?n" by simp
  have "?refs = zip4 ?ks (replicate ?n p0) (replicate ?n chan) (replicate ?n expo)"
    using h by (simp add: bq_refs_def Let_def concat_replicate_single)
  also have "\<dots> = map (\<lambda>i. (?ks ! i, replicate ?n p0 ! i, chan, expo)) [0..<?n]"
    using lk lp by (rule zip4_nth_le) simp
  finally have refs: "?refs = map (\<lambda>i. (?ks ! i, replicate ?n p0 ! i, chan, expo)) [0..<?n]" .
  have fsts: "map fst ?refs = ?ks"
    unfolding refs using lk by (rule fst_refs)
  have q1: "distinct (map fst ?refs)" unfolding fsts using h by simp
  have q2: "set (map fst ?refs) \<subseteq> fst ` set (assays a)" unfolding fsts by simp
  have q3: "\<forall>r \<in> set ?refs. new_quant (device a) (fst (snd r)) (fst (snd (snd r)))
        (snd (snd (snd r))) = (\<lambda>k. ?q) (fst r)"
    unfolding refs by simp
  from load_quants_loop_ok [OF q1 q2 q3] obtain asy' where dd:
    "load_quants_loop (device a) ?refs (assays a) = Inr asy' \<and>
     map fst asy' = map fst (assays a) \<and>
     (\<forall>k. map_of asy' k = (if k \<in> set (map fst ?refs)
          then map_option (\<lambda>x. add_quant x ?q) (map_of (assays a) k)
          else map_of (assays a) k))" ..
  from dd have d1: "load_quants_loop (device a) ?refs (assays a) = Inr asy'"
    by (rule conjunct1)
  from dd have d2: "map fst asy' = map fst (assays a)" by (rule conjunct2 [THEN conjunct1])
  from dd have d3: "\<forall>k. map_of asy' k = (if k \<in> set (map fst ?refs)
          then map_option (\<lambda>x. add_quant x ?q) (map_of (assays a) k)
          else map_of (assays a) k)" by (rule conjunct2 [THEN conjunct2])
  have r1: "load_quants a descriptions paths chan expo = Inr (a\<lparr>assays := asy'\<rparr>)"
    using d1 h by (simp add: load_quants_def)
  have r3: "\<forall>k a0. map_of (assays a) k = Some a0 \<longrightarrow>
      map_of asy' k = Some (a0\<lparr>quants := quants a0 @ [?q]\<rparr>)"
  proof (intro allI impI)
    fix k a0 assume m: "map_of (assays a) k = Some a0"
    have "k \<in> fst ` set (assays a)" using m by (rule assay_value_has_key)
    then have "k \<in> set (map fst ?refs)" unfolding fsts by simp
    then show "map_of asy' k = Some (a0\<lparr>quants := quants a0 @ [?q]\<rparr>)"
      using d3 [rule_format, of k] m by (simp add: add_quant_def)
  qed
  have "load_quants a descriptions paths chan expo = Inr (a\<lparr>assays := asy'\<rparr>)
           \<and> map fst asy' = map fst (assays a)
           \<and> (\<forall>k a0. map_of (assays a) k = Some a0 \<longrightarrow>
                 map_of asy' k = Some (a0\<lparr>quants := quants a0 @ [?q]\<rparr>))"
    by (intro conjI r1 d2 r3)
  then show "\<exists>asy'. load_quants a descriptions paths chan expo = Inr (a\<lparr>assays := asy'\<rparr>)
           \<and> map fst asy' = map fst (assays a)
           \<and> (\<forall>k a0. map_of (assays a) k = Some a0 \<longrightarrow>
                 map_of asy' k
                   = Some (a0\<lparr>quants := quants a0 @ [new_quant (device a) p0 chan expo]\<rparr>))" ..
next
  assume h: "length descriptions = length paths \<and> length descriptions \<noteq> 1
        \<and> distinct descriptions \<and> set descriptions \<subseteq> fst ` set (assays a)"
  let ?n = "length (assays a)"
  let ?m = "length descriptions"
  let ?refs = "bq_refs a descriptions paths chan expo"
  let ?qf = "\<lambda>k. new_quant (device a) (the (map_of (zip descriptions paths) k)) chan expo"
  have l2: "length paths = ?m" and n1: "?m \<noteq> 1" and dis: "distinct descriptions"
    and sub: "set descriptions \<subseteq> fst ` set (assays a)"
    using h by simp_all
  have le: "?m \<le> ?n" using dis sub by (rule keys_bound)
  have "?refs = zip4 descriptions paths (replicate ?n chan) (replicate ?n expo)"
    using n1 by (simp add: bq_refs_def Let_def)
  also have "\<dots> = map (\<lambda>i. (descriptions ! i, paths ! i, chan, expo)) [0..<?m]"
    using refl l2 le by (rule zip4_nth_le)
  finally have refs: "?refs = map (\<lambda>i. (descriptions ! i, paths ! i, chan, expo)) [0..<?m]" .
  have fsts: "map fst ?refs = descriptions"
    unfolding refs using refl by (rule fst_refs)
  have at: "map_of (zip descriptions paths) (descriptions ! i) = Some (paths ! i)"
    if "i < ?m" for i
    using l2 [symmetric] dis that by (simp add: map_of_zip_nth)
  have q1: "distinct (map fst ?refs)" unfolding fsts by (rule dis)
  have q2: "set (map fst ?refs) \<subseteq> fst ` set (assays a)" unfolding fsts by (rule sub)
  have q3: "\<forall>r \<in> set ?refs. new_quant (device a) (fst (snd r)) (fst (snd (snd r)))
        (snd (snd (snd r))) = ?qf (fst r)"
    unfolding refs by (simp add: at)
  from load_quants_loop_ok [OF q1 q2 q3] obtain asy' where dd:
    "load_quants_loop (device a) ?refs (assays a) = Inr asy' \<and>
     map fst asy' = map fst (assays a) \<and>
     (\<forall>k. map_of asy' k = (if k \<in> set (map fst ?refs)
          then map_option (\<lambda>x. add_quant x (?qf k)) (map_of (assays a) k)
          else map_of (assays a) k))" ..
  from dd have d1: "load_quants_loop (device a) ?refs (assays a) = Inr asy'"
    by (rule conjunct1)
  from dd have d2: "map fst asy' = map fst (assays a)" by (rule conjunct2 [THEN conjunct1])
  from dd have d3: "\<forall>k. map_of asy' k = (if k \<in> set (map fst ?refs)
          then map_option (\<lambda>x. add_quant x (?qf k)) (map_of (assays a) k)
          else map_of (assays a) k)" by (rule conjunct2 [THEN conjunct2])
  have r1: "load_quants a descriptions paths chan expo = Inr (a\<lparr>assays := asy'\<rparr>)"
    using d1 l2 by (simp add: load_quants_def)
  have r3: "\<forall>i a0. i < ?m \<and> map_of (assays a) (descriptions ! i) = Some a0 \<longrightarrow>
      map_of asy' (descriptions ! i)
        = Some (a0\<lparr>quants := quants a0 @ [new_quant (device a) (paths ! i) chan expo]\<rparr>)"
  proof (intro allI impI)
    fix i a0 assume ia: "i < ?m \<and> map_of (assays a) (descriptions ! i) = Some a0"
    then have i: "i < ?m" and m: "map_of (assays a) (descriptions ! i) = Some a0" by simp_all
    have "descriptions ! i \<in> set (map fst ?refs)" unfolding fsts using i by simp
    then show "map_of asy' (descriptions ! i)
        = Some (a0\<lparr>quants := quants a0 @ [new_quant (device a) (paths ! i) chan expo]\<rparr>)"
      using d3 [rule_format, of "descriptions ! i"] m at [OF i] by (simp add: add_quant_def)
  qed
  have r4: "\<forall>k. k \<notin> set descriptions \<longrightarrow> map_of asy' k = map_of (assays a) k"
  proof (intro allI impI)
    fix k assume "k \<notin> set descriptions"
    then have "k \<notin> set (map fst ?refs)" unfolding fsts .
    then show "map_of asy' k = map_of (assays a) k" using d3 [rule_format, of k] by simp
  qed
  have "load_quants a descriptions paths chan expo = Inr (a\<lparr>assays := asy'\<rparr>)
           \<and> map fst asy' = map fst (assays a)
           \<and> (\<forall>i a0. i < length descriptions \<and> map_of (assays a) (descriptions ! i) = Some a0 \<longrightarrow>
                 map_of asy' (descriptions ! i)
                   = Some (a0\<lparr>quants := quants a0 @ [new_quant (device a) (paths ! i) chan expo]\<rparr>))
           \<and> (\<forall>k. k \<notin> set descriptions \<longrightarrow> map_of asy' k = map_of (assays a) k)"
    by (intro conjI r1 d2 r3 r4)
  then show "\<exists>asy'. load_quants a descriptions paths chan expo = Inr (a\<lparr>assays := asy'\<rparr>)
           \<and> map fst asy' = map fst (assays a)
           \<and> (\<forall>i a0. i < length descriptions \<and> map_of (assays a) (descriptions ! i) = Some a0 \<longrightarrow>
                 map_of asy' (descriptions ! i)
                   = Some (a0\<lparr>quants := quants a0 @ [new_quant (device a) (paths ! i) chan expo]\<rparr>))
           \<and> (\<forall>k. k \<notin> set descriptions \<longrightarrow> map_of asy' k = map_of (assays a) k)" ..
qed

text \<open>
  Claim C7, as stated, fails: one path given with two descriptions is not broadcast.
  The length check comes first and the call ends in its \<^verbatim>\<open>ValueError\<close>.
\<close>

theorem load_quants_one_path_counterexample:
  "load_quants demo_assay_series [''a'', ''b''] [''/q/one.tif''] ''egfp'' 500
     = Inl (ValueError ''Descriptions and paths must be of same length'')
   \<and> \<not> (\<exists>r. load_quants demo_assay_series [''a'', ''b''] [''/q/one.tif''] ''egfp'' 500 = Inr r)"
  by (simp add: load_quants_def)

text \<open>
  Claim C7, amended. Descriptions and paths of different lengths are rejected with a
  \<^verbatim>\<open>ValueError\<close>; in particular one path with any number of descriptions other than
  one is rejected. One description with one path is broadcast: every assay gets exactly
  one new quant at the end of its list, an unprocessed \<^verbatim>\<open>Button_Quant\<close> whose chip is
  loaded from that path with the given channel and exposure. With another number of
  distinct descriptions, all of them assay keys, and as many paths, the assay of the
  \<^verbatim>\<open>i\<close>-th description gets exactly one such quant, loaded from the \<^verbatim>\<open>i\<close>-th path, at
  the end of its list, and every other assay is unchanged. The keys and their order stay
  as they were.
\<close>

theorem load_quants_appends:
  "(length descriptions \<noteq> length paths \<longrightarrow>
      load_quants a descriptions paths chan expo
        = Inl (ValueError ''Descriptions and paths must be of same length''))
   \<and> (paths = [p0] \<and> length descriptions \<noteq> 1 \<longrightarrow>
      load_quants a descriptions paths chan expo
        = Inl (ValueError ''Descriptions and paths must be of same length''))
   \<and> (descriptions = [d0] \<and> paths = [p0] \<and> distinct (map fst (assays a)) \<longrightarrow>
        (\<exists>asy'. load_quants a descriptions paths chan expo = Inr (a\<lparr>assays := asy'\<rparr>)
           \<and> map fst asy' = map fst (assays a)
           \<and> (\<forall>k a0. map_of (assays a) k = Some a0 \<longrightarrow>
                 map_of asy' k
                   = Some (a0\<lparr>quants := quants a0 @
                       [\<lparr>device = device a, attrs = None, description = ''Button_Quant'',
                        chip = Some \<lparr>chip_device = device a, data_ref = p0, ids = [],
                                     chip_corners = corners (device a),
                                     chip_pinlist = pinlist (device a),
                                     channel = chan, exposure = expo, calls = []\<rparr>,
                        processed = False\<rparr>]\<rparr>))))
   \<and> (length descriptions = length paths \<and> length descriptions \<noteq> 1
        \<and> distinct descriptions \<and> set descriptions \<subseteq> fst ` set (assays a) \<longrightarrow>
        (\<exists>asy'. load_quants a descriptions paths chan expo = Inr (a\<lparr>assays := asy'\<rparr>)
           \<and> map fst asy' = map fst (assays a)
           \<and> (\<forall>i a0. i < length descriptions \<and> map_of (assays a) (descriptions ! i) = Some a0 \<longrightarrow>
                 map_of asy' (descriptions ! i)
                   = Some (a0\<lparr>quants := quants a0 @
                       [\<lparr>device = device a, attrs = None, description = ''Button_Quant'',
                        chip = Some \<lparr>chip_device = device a, data_ref = paths ! i, ids = [],
                                     chip_corners = corners (device a),
                                     chip_pinlist = pinlist (device a),
                                     channel = chan, exposure = expo, calls = []\<rparr>,
                        processed = False\<rparr>]\<rparr>))
           \<and> (\<forall>k. k \<notin> set descriptions \<longrightarrow> map_of asy' k = map_of (assays a) k)))"
proof -
  have nq: "new_quant (device a) p chan expo
      = \<lparr>device = device a, attrs = None, description = ''Button_Quant'',
                        chip = Some \<lparr>chip_device = device a, data_ref = p, ids = [],
                                     chip_corners = corners (device a),
                                     chip_pinlist = pinlist (device a),
                                     channel = chan, exposure = expo, calls = []\<rparr>,
                        processed = False\<rparr>" for p
    by (simp add: new_quant_def load_file_def ChipQuant_init_def ChipImage_def)
  note parts = load_quants_by_new_quant
    [where descriptions = descriptions and paths = paths and a = a and chan = chan
       and expo = expo and ?d0.0 = d0 and ?p0.0 = p0, unfolded nq]
  have one: "paths = [p0] \<and> length descriptions \<noteq> 1 \<longrightarrow>
      load_quants a descriptions paths chan expo
        = Inl (ValueError ''Descriptions and paths must be of same length'')"
    by (auto simp: load_quants_def)
  show ?thesis
    by (intro conjI parts [THEN conjunct1] one parts [THEN conjunct2, THEN conjunct1]
        parts [THEN conjunct2, THEN conjunct2])
qed

theorem load_quants_appends_witness:
  "load_quants demo_assay_series [''a'', ''b'', ''c''] [''/q/one.tif'', ''/q/two.tif''] ''egfp'' 500
     = Inl (ValueError ''Descriptions and paths must be of same length'')
   \<and> (\<exists>r. load_quants demo_assay_series [''a''] [''/q/one.tif''] ''egfp'' 500 = Inr r
         \<and> map (\<lambda>(k, x). (k, map (\<lambda>q. (description q, map_option data_ref (chip q),
                                            processed q)) (quants x))) (assays r)
             = [(''a'', [(''Button_Quant'', Some ''/q/one.tif'', False)]),
                (''b'', [(''Button_Quant'', Some ''/q/one.tif'', False)])])
   \<and> (\<exists>r. load_quants demo_assay_series [''b'', ''a''] [''/q/b.tif'', ''/q/a.tif''] ''egfp'' 500
               = Inr r
         \<and> map (\<lambda>(k, x). (k, map (\<lambda>q. (description q, map_option data_ref (chip q),
                                            processed q)) (quants x))) (assays r)
             = [(''a'', [(''Button_Quant'', Some ''/q/a.tif'', False)]),
                (''b'', [(''Button_Quant'', Some ''/q/b.tif'', False)])])"
proof -
  have m: "load_quants demo_assay_series [''a'', ''b'', ''c''] [''/q/one.tif'', ''/q/two.tif'']
             ''egfp'' 500
     = Inl (ValueError ''Descriptions and paths must be of same length'')"
    using load_quants_appends
      [of "[''a'', ''b'', ''c'']" "[''/q/one.tif'', ''/q/two.tif'']" demo_assay_series
          "''egfp''" 500]
    by simp
  have pre1: "[''a''] = [''a''] \<and> [''/q/one.tif''] = [''/q/one.tif'']
      \<and> distinct (map fst (assays demo_assay_series))"
    by (simp add: demo_assay_series_def AssaySeries_init_def)
  from load_quants_appends
      [where descriptions = "[''a'']" and paths = "[''/q/one.tif'']" and a = demo_assay_series
         and chan = "''egfp''" and expo = 500 and ?d0.0 = "''a''" and ?p0.0 = "''/q/one.tif''",
       THEN conjunct2, THEN conjunct2, THEN conjunct1, rule_format, OF pre1]
  obtain asy1 where b0:
    "load_quants demo_assay_series [''a''] [''/q/one.tif''] ''egfp'' 500
       = Inr (demo_assay_series\<lparr>assays := asy1\<rparr>)" by auto
  have pre2: "length [''b'', ''a''] = length [''/q/b.tif'', ''/q/a.tif'']
      \<and> length [''b'', ''a''] \<noteq> 1 \<and> distinct [''b'', ''a'']
      \<and> set [''b'', ''a''] \<subseteq> fst ` set (assays demo_assay_series)"
    by (simp add: demo_assay_series_def AssaySeries_init_def)
  from load_quants_appends
      [where descriptions = "[''b'', ''a'']" and paths = "[''/q/b.tif'', ''/q/a.tif'']"
         and a = demo_assay_series and chan = "''egfp''" and expo = 500,
       THEN conjunct2, THEN conjunct2, THEN conjunct2, rule_format, OF pre2]
  obtain asy2 where c0:
    "load_quants demo_assay_series [''b'', ''a''] [''/q/b.tif'', ''/q/a.tif''] ''egfp'' 500
       = Inr (demo_assay_series\<lparr>assays := asy2\<rparr>)" by auto
  have b: "\<exists>r. load_quants demo_assay_series [''a''] [''/q/one.tif''] ''egfp'' 500 = Inr r
         \<and> map (\<lambda>(k, x). (k, map (\<lambda>q. (description q, map_option data_ref (chip q),
                                            processed q)) (quants x))) (assays r)
             = [(''a'', [(''Button_Quant'', Some ''/q/one.tif'', False)]),
                (''b'', [(''Button_Quant'', Some ''/q/one.tif'', False)])]"
    by (simp add: load_quants_def bq_refs_def zip4_def demo_assay_series_def
        AssaySeries_init_def add_quant_def TurnoverAssay_init_def new_quant_def load_file_def
        ChipQuant_init_def ChipImage_def)
  have c: "\<exists>r. load_quants demo_assay_series [''b'', ''a''] [''/q/b.tif'', ''/q/a.tif''] ''egfp'' 500
               = Inr r
         \<and> map (\<lambda>(k, x). (k, map (\<lambda>q. (description q, map_option data_ref (chip q),
                                            processed q)) (quants x))) (assays r)
             = [(''a'', [(''Button_Quant'', Some ''/q/a.tif'', False)]),
                (''b'', [(''Button_Quant'', Some ''/q/b.tif'', False)])]"
    by (simp add: load_quants_def bq_refs_def zip4_def demo_assay_series_def
        AssaySeries_init_def add_quant_def TurnoverAssay_init_def new_quant_def load_file_def
        ChipQuant_init_def ChipImage_def)
  from m b c b0 c0 show ?thesis by simp
qed

end
